theory Spec2Isabelle
  imports Main
begin

section \<open>Errors and results\<close>

text \<open>
  The exceptions that the Python of \<^verbatim>\<open>torchrec/distributed/quant_embedding.py\<close> and the
  library calls it makes can raise. \<open>InvariantViolation\<close> is the failure of the jagged
  keyed collection. A fallible computation returns \<open>error + 'a\<close>, \<open>Inl\<close> being the raise.
\<close>

datatype error =
    ValueError
  | AssertionError
  | IndexError
  | RuntimeError
  | AttributeError
  | KeyError
  | InvariantViolation

definition bind_result :: "error + 'a \<Rightarrow> ('a \<Rightarrow> error + 'b) \<Rightarrow> error + 'b" where
  "bind_result r f = (case r of Inl e \<Rightarrow> Inl e | Inr x \<Rightarrow> f x)"

definition nth_checked :: "'a list \<Rightarrow> nat \<Rightarrow> error + 'a" where
  \<comment> \<open>\<^verbatim>\<open>xs[i]\<close> on a list or tuple with a non-negative index\<close>
  "nth_checked xs i = (if i < length xs then Inr (xs ! i) else Inl IndexError)"

section \<open>Tensors and the PyTorch operations the module calls\<close>

text \<open>
  A one-dimensional tensor is the list of its elements. A two-dimensional tensor of
  embeddings is the list of its rows (dimension 0), a row being a value of the type
  parameter \<open>'e\<close>: \<^verbatim>\<open>compute\<close> views every lookup output as \<^verbatim>\<open>(-1, embedding_dim)\<close>, and every
  operation below acts along dimension 0 only.
\<close>

fun split_with_sizes :: "'a list \<Rightarrow> nat list \<Rightarrow> 'a list list" where
  "split_with_sizes t [] = []"
| "split_with_sizes t (n # ns) = take n t # split_with_sizes (drop n t) ns"

definition torch_split :: "'a list \<Rightarrow> nat list \<Rightarrow> error + 'a list list" where
  \<comment> \<open>\<^verbatim>\<open>torch.split(t, sizes, dim=0)\<close>: the sizes must sum to the size of dimension 0\<close>
  "torch_split t sizes =
     (if sum_list sizes = length t then Inr (split_with_sizes t sizes) else Inl RuntimeError)"

definition torch_concat :: "'a list list \<Rightarrow> error + 'a list" where
  \<comment> \<open>\<^verbatim>\<open>torch.concat(ts, dim=0)\<close>: refuses an empty list of tensors\<close>
  "torch_concat ts = (if ts = [] then Inl RuntimeError else Inr (concat ts))"

definition index_select :: "'a list \<Rightarrow> int list \<Rightarrow> error + 'a list" where
  \<comment> \<open>\<^verbatim>\<open>t.index_select(0, idx)\<close>: every index must lie in \<open>[0, size)\<close>\<close>
  "index_select t idx =
     (if list_all (\<lambda>i. 0 \<le> i \<and> i < int (length t)) idx
      then Inr (map (\<lambda>i. t ! nat i) idx) else Inl IndexError)"

definition view_unbind :: "'a list \<Rightarrow> nat \<Rightarrow> error + 'a list list" where
  \<comment> \<open>\<^verbatim>\<open>torch.unbind(t.view(-1, stride), dim=0)\<close>: the rows of the view\<close>
  "view_unbind t stride =
     (if stride = 0 \<or> length t mod stride \<noteq> 0 then Inl RuntimeError
      else Inr (map (\<lambda>r. take stride (drop (r * stride) t)) [0..<length t div stride]))"

section \<open>Jagged tensors\<close>

text \<open>
  Modelled from the spec: the class \<^verbatim>\<open>KeyedJaggedTensor\<close> of
  \<^verbatim>\<open>torchrec.sparse.jagged_tensor\<close> is not among the sources. Spec section 3: an ordered
  sequence of feature keys, a flat value sequence, a flat length-per-(key, example)
  sequence, and the stride (examples per batch). The optional weights of the collection
  are never read by the module and are left out.
\<close>

record KeyedJaggedTensor =
  kjt_keys :: "string list"
  kjt_values :: "int list"
  kjt_lengths :: "nat list"
  kjt_stride :: nat

text \<open>
  Modelled from the spec: \<^verbatim>\<open>length_per_key()\<close> "returns, for each key, the total number
  of values summed over all examples" (spec section 4.1). The lengths of key \<open>k\<close> are the
  \<open>k\<close>-th run of \<open>stride\<close> entries of the flat length sequence.
\<close>

definition key_lengths :: "KeyedJaggedTensor \<Rightarrow> nat \<Rightarrow> nat list" where
  "key_lengths f k = take (kjt_stride f) (drop (k * kjt_stride f) (kjt_lengths f))"

definition length_per_key :: "KeyedJaggedTensor \<Rightarrow> nat list" where
  "length_per_key f = map (\<lambda>k. sum_list (key_lengths f k)) [0..<length (kjt_keys f)]"

text \<open>
  \<^verbatim>\<open>JaggedTensor\<close> as the module builds it: embedding rows as values, the lengths of one
  key, and as optional weights the ids that were looked up.
\<close>

record 'e JaggedTensor =
  jt_values :: "'e list"
  jt_lengths :: "nat list"
  jt_weights :: "int list option"

type_synonym 'e jt_dict = "string \<rightharpoonup> 'e JaggedTensor"

section \<open>Reconstruction of the per-feature results\<close>

text \<open>
  The loop \<^verbatim>\<open>for i, key in enumerate(keys): ret[key] = JaggedTensor(...)\<close>, the constructor
  call being the function \<open>mk\<close> of the index. A raise inside the call ends the loop.
\<close>

fun assign_keys ::
  "(nat \<Rightarrow> error + 'v) \<Rightarrow> (nat \<times> string) list \<Rightarrow> (string \<rightharpoonup> 'v) \<Rightarrow> error + (string \<rightharpoonup> 'v)" where
  "assign_keys mk [] ret = Inr ret"
| "assign_keys mk ((i, key) # rest) ret =
     (case mk i of Inl e \<Rightarrow> Inl e | Inr jt \<Rightarrow> assign_keys mk rest (ret(key \<mapsto> jt)))"

text \<open>
  \<^verbatim>\<open>_construct_jagged_tensors_tw\<close>. \<open>tw_jagged_tensor\<close> is the constructor call of its inner
  loops, with the values list present when indices are requested; \<open>tw_destination\<close> is one
  iteration of the loop over the destinations, and \<open>tw_loop\<close> that loop. The inner loops
  reuse the name \<^verbatim>\<open>i\<close> of the outer index, which does not disturb the outer \<^verbatim>\<open>range\<close>. The
  source views the lengths as \<^verbatim>\<open>(-1, stride)\<close> twice before unbinding them; the second view
  is the identity on the first.
\<close>

definition tw_jagged_tensor ::
  "nat list list \<Rightarrow> 'e list list \<Rightarrow> int list list option \<Rightarrow> nat \<Rightarrow> error + 'e JaggedTensor" where
  "tw_jagged_tensor lengths_tuple embeddings_list values_list i =
     bind_result (nth_checked lengths_tuple i) (\<lambda>l.
     bind_result (nth_checked embeddings_list i) (\<lambda>v.
     case values_list of
       Some vl \<Rightarrow> bind_result (nth_checked vl i) (\<lambda>w.
         Inr \<lparr>jt_values = v, jt_lengths = l, jt_weights = Some w\<rparr>)
     | None \<Rightarrow> Inr \<lparr>jt_values = v, jt_lengths = l, jt_weights = None\<rparr>))"

definition tw_destination ::
  "'e list \<Rightarrow> KeyedJaggedTensor \<Rightarrow> bool \<Rightarrow> 'e jt_dict \<Rightarrow> error + 'e jt_dict" where
  "tw_destination embeddings_i features_i need_indices ret =
     bind_result (view_unbind (kjt_lengths features_i) (kjt_stride features_i)) (\<lambda>lengths_tuple.
     bind_result (torch_split embeddings_i (length_per_key features_i)) (\<lambda>embeddings_list.
     if need_indices then
       bind_result (torch_split (kjt_values features_i) (length_per_key features_i)) (\<lambda>values_list.
         assign_keys (tw_jagged_tensor lengths_tuple embeddings_list (Some values_list))
           (enumerate 0 (kjt_keys features_i)) ret)
     else
       assign_keys (tw_jagged_tensor lengths_tuple embeddings_list None)
         (enumerate 0 (kjt_keys features_i)) ret))"

fun tw_loop ::
  "nat list \<Rightarrow> 'e list list \<Rightarrow> KeyedJaggedTensor list \<Rightarrow> bool \<Rightarrow> 'e jt_dict \<Rightarrow> error + 'e jt_dict" where
  "tw_loop [] embeddings features need_indices ret = Inr ret"
| "tw_loop (i # is) embeddings features need_indices ret =
     bind_result (nth_checked embeddings i) (\<lambda>embeddings_i.
     bind_result (nth_checked features i) (\<lambda>features_i.
     bind_result (tw_destination embeddings_i features_i need_indices ret) (\<lambda>ret'.
     tw_loop is embeddings features need_indices ret')))"

definition construct_jagged_tensors_tw ::
  "'e list list \<Rightarrow> KeyedJaggedTensor list \<Rightarrow> bool \<Rightarrow> error + 'e jt_dict" where
  "construct_jagged_tensors_tw embeddings features need_indices =
     tw_loop [0..<length embeddings] embeddings features need_indices Map.empty"

text \<open>
  \<^verbatim>\<open>_construct_jagged_tensors_rw\<close>, \<open>rw_jagged_tensor\<close> being the constructor call of its loop,
  and \<^verbatim>\<open>_construct_jagged_tensors\<close>, which takes the row-wise path exactly when it is given an
  unbucketize permutation.
\<close>

definition rw_jagged_tensor ::
  "'e list list \<Rightarrow> nat list list \<Rightarrow> int list list \<Rightarrow> bool \<Rightarrow> nat \<Rightarrow> error + 'e JaggedTensor" where
  "rw_jagged_tensor embs_split_per_key lengths_list values_list need_indices i =
     bind_result (nth_checked embs_split_per_key i) (\<lambda>v.
     bind_result (nth_checked lengths_list i) (\<lambda>l.
     if need_indices then
       bind_result (nth_checked values_list i) (\<lambda>w.
         Inr \<lparr>jt_values = v, jt_lengths = l, jt_weights = Some w\<rparr>)
     else Inr \<lparr>jt_values = v, jt_lengths = l, jt_weights = None\<rparr>))"

definition construct_jagged_tensors_rw ::
  "'e list list \<Rightarrow> KeyedJaggedTensor \<Rightarrow> bool \<Rightarrow> int list \<Rightarrow> error + 'e jt_dict" where
  "construct_jagged_tensors_rw embeddings features_before_input_dist need_indices
       unbucketize_tensor =
     bind_result (torch_concat embeddings) (\<lambda>cat.
     bind_result (index_select cat unbucketize_tensor) (\<lambda>unbucketized_embs.
     bind_result (torch_split unbucketized_embs (length_per_key features_before_input_dist))
       (\<lambda>embs_split_per_key.
     bind_result (view_unbind (kjt_lengths features_before_input_dist)
         (kjt_stride features_before_input_dist)) (\<lambda>lengths_list.
     bind_result
       (if need_indices
        then torch_split (kjt_values features_before_input_dist)
               (length_per_key features_before_input_dist)
        else Inr []) (\<lambda>values_list.
     assign_keys (rw_jagged_tensor embs_split_per_key lengths_list values_list need_indices)
       (enumerate 0 (kjt_keys features_before_input_dist)) Map.empty)))))"

definition construct_jagged_tensors ::
  "'e list list \<Rightarrow> KeyedJaggedTensor list \<Rightarrow> string list list \<Rightarrow> KeyedJaggedTensor \<Rightarrow> bool \<Rightarrow>
   int list option \<Rightarrow> (string \<rightharpoonup> int list) \<Rightarrow> error + 'e jt_dict" where
  "construct_jagged_tensors embeddings features embedding_names_per_rank
       features_before_input_dist need_indices unbucketize_tensor features_to_permute_indices =
     (case unbucketize_tensor of
        Some t \<Rightarrow> construct_jagged_tensors_rw embeddings features_before_input_dist need_indices t
      | None \<Rightarrow> construct_jagged_tensors_tw embeddings features need_indices)"

section \<open>The jagged keyed collection: permute and split\<close>

text \<open>
  Modelled from the spec: \<^verbatim>\<open>KeyedJaggedTensor.permute\<close> and \<^verbatim>\<open>KeyedJaggedTensor.split\<close> are
  not among the sources. Spec section 4.1: \<^verbatim>\<open>permute(new_order)\<close> "reorders keys (and their
  associated values/lengths) without altering which example owns which value";
  \<^verbatim>\<open>split(group_sizes)\<close> "partitions the ordered key sequence into contiguous
  sub-collections", each of which "carries only the values/lengths belonging to its keys,
  preserving per-key and per-example order". Either "fails with an InvariantViolation if
  keys requested in a split/permute are not a subset of existing keys, or if length sums
  are inconsistent with the value buffer size". Group sizes that sum to less than the
  number of keys request a subset of the keys, the leading ones.
\<close>

definition key_values :: "KeyedJaggedTensor \<Rightarrow> nat \<Rightarrow> int list" where
  "key_values f k =
     take (length_per_key f ! k) (drop (sum_list (take k (length_per_key f))) (kjt_values f))"

definition kjt_consistent :: "KeyedJaggedTensor \<Rightarrow> bool" where
  "kjt_consistent f \<longleftrightarrow> sum_list (length_per_key f) = length (kjt_values f)"

definition kjt_select :: "KeyedJaggedTensor \<Rightarrow> nat list \<Rightarrow> KeyedJaggedTensor" where
  \<comment> \<open>the collection of the keys at the given positions, in the given order\<close>
  "kjt_select f ks =
     \<lparr>kjt_keys = map (\<lambda>k. kjt_keys f ! k) ks,
      kjt_values = concat (map (key_values f) ks),
      kjt_lengths = concat (map (key_lengths f) ks),
      kjt_stride = kjt_stride f\<rparr>"

definition kjt_permute :: "KeyedJaggedTensor \<Rightarrow> nat list \<Rightarrow> error + KeyedJaggedTensor" where
  "kjt_permute f new_order =
     (if list_all (\<lambda>k. k < length (kjt_keys f)) new_order \<and> kjt_consistent f
      then Inr (kjt_select f new_order) else Inl InvariantViolation)"

fun split_ranges :: "nat \<Rightarrow> nat list \<Rightarrow> nat list list" where
  "split_ranges start [] = []"
| "split_ranges start (n # ns) = [start..<start + n] # split_ranges (start + n) ns"

definition kjt_split :: "KeyedJaggedTensor \<Rightarrow> nat list \<Rightarrow> error + KeyedJaggedTensor list" where
  "kjt_split f group_sizes =
     (if sum_list group_sizes \<le> length (kjt_keys f) \<and> kjt_consistent f
      then Inr (map (kjt_select f) (split_ranges 0 group_sizes)) else Inl InvariantViolation)"

section \<open>Sharding strategies and their parts\<close>

text \<open>
  Modelled from the spec: the enum \<^verbatim>\<open>ShardingType\<close> of \<^verbatim>\<open>torchrec.distributed.types\<close> is not
  among the sources; spec section 6 lists its values. The module handles a sharding type
  as the string value of an enum member and only compares it with the values of
  \<^verbatim>\<open>TABLE_WISE\<close> and \<^verbatim>\<open>ROW_WISE\<close>; the member stands for its string.
\<close>

datatype ShardingType = TABLE_WISE | ROW_WISE | COLUMN_WISE | TABLE_ROW_WISE | DATA_PARALLEL

text \<open>
  Modelled from the spec: \<^verbatim>\<open>InferSequenceShardingContext\<close> is not among the sources. Spec
  section 3: the routing metadata of one sharding type, "redistributed features,
  pre-distribution features for order-restoration, optional unbucketize permutation".
\<close>

record InferSequenceShardingContext =
  sc_features :: "KeyedJaggedTensor list"
  sc_features_before_input_dist :: KeyedJaggedTensor
  sc_unbucketize_permute_tensor :: "int list option"

record EmbeddingCollectionContext =
  sharding_contexts :: "InferSequenceShardingContext list"

text \<open>
  Modelled from the spec: the classes \<^verbatim>\<open>InferTwSparseFeaturesDist\<close> and
  \<^verbatim>\<open>InferRwSparseFeaturesDist\<close> are not among the sources. Spec section 4.3: an input
  distributor maps the jagged collection of its sharding type to one jagged collection per
  destination, "plus (for row-wise) an unbucketize permutation". The redistribution and the
  bucketization are parameters; the module reads the permutation of a row-wise distributor
  from its attribute \<^verbatim>\<open>unbucketize_permute_tensor\<close> after \<^verbatim>\<open>forward\<close>.
\<close>

datatype input_dist =
    InferTwSparseFeaturesDist "KeyedJaggedTensor \<Rightarrow> KeyedJaggedTensor list"
  | InferRwSparseFeaturesDist "KeyedJaggedTensor \<Rightarrow> KeyedJaggedTensor list"
      "KeyedJaggedTensor \<Rightarrow> int list"

fun input_dist_forward :: "input_dist \<Rightarrow> KeyedJaggedTensor \<Rightarrow> KeyedJaggedTensor list" where
  "input_dist_forward (InferTwSparseFeaturesDist dist) f = dist f"
| "input_dist_forward (InferRwSparseFeaturesDist dist unbucketize) f = dist f"

fun unbucketize_permute_tensor_after :: "input_dist \<Rightarrow> KeyedJaggedTensor \<Rightarrow> int list option" where
  \<comment> \<open>\<^verbatim>\<open>input_dist.unbucketize_permute_tensor if isinstance(input_dist, InferRwSparseFeaturesDist) else None\<close>\<close>
  "unbucketize_permute_tensor_after (InferTwSparseFeaturesDist dist) f = None"
| "unbucketize_permute_tensor_after (InferRwSparseFeaturesDist dist unbucketize) f =
     Some (unbucketize f)"

text \<open>
  The lookup of one sharding type (spec section 4.4): one raw tensor per destination, here
  already as rows of width \<^verbatim>\<open>embedding_dim\<close>, and the state dictionary the constructor reads.
  The output distributor of the inference strategies is a function of the lookup output
  and the sharding context.
\<close>

record 'e lookup =
  lookup_forward :: "KeyedJaggedTensor list \<Rightarrow> 'e list list"
  lookup_state_dict :: "(string \<times> 'e list) list"

record 'e output_dist =
  output_dist_forward :: "'e list list \<Rightarrow> InferSequenceShardingContext \<Rightarrow> 'e list list"

text \<open>
  Modelled from the spec: the strategy classes \<^verbatim>\<open>InferTwSequenceEmbeddingSharding\<close> and
  \<^verbatim>\<open>InferRwSequenceEmbeddingSharding\<close> are not among the sources. Spec section 4.2: each
  strategy has its ordered feature names, its embedding names (per rank), and creates an
  input distributor, a lookup and an output distributor. What the strategy is built from
  (the sharding infos, the environment and the device) is the record of these parts.
\<close>

record 'e sharding_infos =
  si_feature_names :: "string list"
  si_embedding_names :: "string list"
  si_embedding_names_per_rank :: "string list list"
  si_distribute :: "KeyedJaggedTensor \<Rightarrow> KeyedJaggedTensor list"
  si_unbucketize :: "KeyedJaggedTensor \<Rightarrow> int list"
  si_lookup :: "'e lookup"
  si_output_dist :: "'e output_dist"

datatype 'e sharding =
    InferTwSequenceEmbeddingSharding "'e sharding_infos"
  | InferRwSequenceEmbeddingSharding "'e sharding_infos"

fun infos_of :: "'e sharding \<Rightarrow> 'e sharding_infos" where
  "infos_of (InferTwSequenceEmbeddingSharding infos) = infos"
| "infos_of (InferRwSequenceEmbeddingSharding infos) = infos"

definition feature_names :: "'e sharding \<Rightarrow> string list" where
  "feature_names sharding = si_feature_names (infos_of sharding)"

definition embedding_names :: "'e sharding \<Rightarrow> string list" where
  "embedding_names sharding = si_embedding_names (infos_of sharding)"

definition embedding_names_per_rank :: "'e sharding \<Rightarrow> string list list" where
  "embedding_names_per_rank sharding = si_embedding_names_per_rank (infos_of sharding)"

fun create_input_dist :: "'e sharding \<Rightarrow> input_dist" where
  "create_input_dist (InferTwSequenceEmbeddingSharding infos) =
     InferTwSparseFeaturesDist (si_distribute infos)"
| "create_input_dist (InferRwSequenceEmbeddingSharding infos) =
     InferRwSparseFeaturesDist (si_distribute infos) (si_unbucketize infos)"

definition create_lookup :: "'e sharding \<Rightarrow> 'e lookup" where
  "create_lookup sharding = si_lookup (infos_of sharding)"

definition create_output_dist :: "'e sharding \<Rightarrow> 'e output_dist" where
  "create_output_dist sharding = si_output_dist (infos_of sharding)"

definition create_infer_embedding_sharding ::
  "ShardingType \<Rightarrow> 'e sharding_infos \<Rightarrow> error + 'e sharding" where
  "create_infer_embedding_sharding sharding_type sharding_infos =
     (if sharding_type = TABLE_WISE then Inr (InferTwSequenceEmbeddingSharding sharding_infos)
      else if sharding_type = ROW_WISE then Inr (InferRwSequenceEmbeddingSharding sharding_infos)
      else Inl ValueError)"

section \<open>The sharded collection\<close>

text \<open>
  The attributes of \<^verbatim>\<open>ShardedQuantEmbeddingCollection\<close>, \<^verbatim>\<open>self._x\<close> being the field
  \<open>self_x\<close>. The dictionary \<^verbatim>\<open>_sharding_type_to_sharding\<close> is the list of its items in
  insertion order, which is the order every loop over it follows. An embedding table
  config is its table name. The buffer \<^verbatim>\<open>_features_order_tensor\<close> is absent until it is
  registered. \<^verbatim>\<open>self.embeddings\<close> maps a table name to the weight buffer registered on its
  module, if any. Devices are left out.
\<close>

record 'e ShardedQuantEmbeddingCollection =
  self_embedding_configs :: "string list"
  self_sharding_type_to_sharding :: "(ShardingType \<times> 'e sharding) list"
  self_embedding_dim :: nat
  self_embedding_names_per_sharding :: "string list list"
  self_embedding_names_per_rank_per_sharding :: "string list list list"
  self_features_to_permute_indices :: "string \<rightharpoonup> int list"
  self_input_dists :: "input_dist list"
  self_lookups :: "'e lookup list"
  self_output_dists :: "'e output_dist list"
  self_feature_splits :: "nat list"
  self_features_order :: "nat list"
  self_features_order_tensor :: "nat list option"
  self_has_uninitialized_input_dist :: bool
  self_has_uninitialized_output_dist :: bool
  self_need_indices :: bool
  self_tbes_registered :: bool
  self_torch_state_initialized :: bool
  self_embeddings :: "(string \<rightharpoonup> 'e list option) option"

text \<open>
  The arguments of the constructor. Of the module to shard, the constructor reads the table
  names, the embedding dimension and \<^verbatim>\<open>need_indices()\<close>. The grouping of the
  parameter-sharding assignment by sharding type, which \<^verbatim>\<open>create_sharding_infos_by_sharding\<close>
  (not among the sources) computes, is the constructor's argument
  \<open>sharding_type_to_sharding_infos\<close>: the items of that dictionary in order, its keys
  being distinct.
\<close>

record QuantEmbeddingCollection =
  qec_embedding_configs :: "string list"
  qec_embedding_dim :: nat
  qec_need_indices :: bool

text \<open>
  Modelled from the spec: the helpers \<^verbatim>\<open>is_fused_param_register_tbe\<close> and
  \<^verbatim>\<open>is_fused_param_quant_state_dict_split_scale_bias\<close> of \<^verbatim>\<open>torchrec.distributed.fused_params\<close>
  are not among the sources. The two fused-parameter flags (spec section 7,
  "fused-parameter flag combination") are fields of \<open>fused_params\<close>, and the helpers read
  them, false when no fused parameters are given.
\<close>

record fused_params =
  fp_register_tbe :: bool
  fp_quant_state_dict_split_scale_bias :: bool

definition is_fused_param_register_tbe :: "fused_params option \<Rightarrow> bool" where
  "is_fused_param_register_tbe fp = (case fp of None \<Rightarrow> False | Some p \<Rightarrow> fp_register_tbe p)"

definition is_fused_param_quant_state_dict_split_scale_bias :: "fused_params option \<Rightarrow> bool" where
  "is_fused_param_quant_state_dict_split_scale_bias fp =
     (case fp of None \<Rightarrow> False | Some p \<Rightarrow> fp_quant_state_dict_split_scale_bias p)"

text \<open>
  The dictionary comprehension of the constructor: one strategy per sharding type of the
  assignment, in order; the first unsupported type raises.
\<close>

fun create_shardings ::
  "(ShardingType \<times> 'e sharding_infos) list \<Rightarrow> error + (ShardingType \<times> 'e sharding) list" where
  "create_shardings [] = Inr []"
| "create_shardings ((sharding_type, embedding_confings) # rest) =
     bind_result (create_infer_embedding_sharding sharding_type embedding_confings) (\<lambda>sharding.
     bind_result (create_shardings rest) (\<lambda>shardings.
     Inr ((sharding_type, sharding) # shardings)))"

definition endswith :: "string \<Rightarrow> string \<Rightarrow> bool" where
  "endswith s suffix \<longleftrightarrow>
     length suffix \<le> length s \<and> drop (length s - length suffix) s = suffix"

text \<open>
  The registration of the lookup weights when the state dictionary is not split:
  \<^verbatim>\<open>self.embeddings[table_name]\<close> raises on a table name that is not a key. The constructor
  itself, \<^verbatim>\<open>__init__\<close>, is \<open>init\<close>; \<^verbatim>\<open>_initialize_torch_state\<close> of the base class, which is not
  among the sources, is recorded as having run.
\<close>

fun register_weights ::
  "(string \<times> 'e list) list \<Rightarrow> (string \<rightharpoonup> 'e list option) \<Rightarrow> error + (string \<rightharpoonup> 'e list option)" where
  "register_weights [] embeddings = Inr embeddings"
| "register_weights ((key, weight) # rest) embeddings =
     (if endswith key ''.weight'' then
        (let table_name = take (length key - length ''.weight'') key in
         case embeddings table_name of
           None \<Rightarrow> Inl KeyError
         | Some _ \<Rightarrow> register_weights rest (embeddings(table_name \<mapsto> Some weight)))
      else register_weights rest embeddings)"

fun register_lookups ::
  "(ShardingType \<times> 'e lookup) list \<Rightarrow> (string \<rightharpoonup> 'e list option) \<Rightarrow>
   error + (string \<rightharpoonup> 'e list option)" where
  "register_lookups [] embeddings = Inr embeddings"
| "register_lookups ((sharding_type, lookup) # rest) embeddings =
     bind_result (register_weights (lookup_state_dict lookup) embeddings) (\<lambda>embeddings'.
     register_lookups rest embeddings')"

definition module_create_lookups :: "'e sharding list \<Rightarrow> 'e lookup list" where
  "module_create_lookups shardings = map create_lookup shardings"

definition init ::
  "QuantEmbeddingCollection \<Rightarrow> (ShardingType \<times> 'e sharding_infos) list \<Rightarrow> fused_params option \<Rightarrow>
   error + 'e ShardedQuantEmbeddingCollection" where
  "init module sharding_type_to_sharding_infos fused_params =
     bind_result (create_shardings sharding_type_to_sharding_infos) (\<lambda>sharding_type_to_sharding.
     let shardings = map snd sharding_type_to_sharding;
         self = \<lparr>self_embedding_configs = qec_embedding_configs module,
                 self_sharding_type_to_sharding = sharding_type_to_sharding,
                 self_embedding_dim = qec_embedding_dim module,
                 self_embedding_names_per_sharding = map embedding_names shardings,
                 self_embedding_names_per_rank_per_sharding = map embedding_names_per_rank shardings,
                 self_features_to_permute_indices = Map.empty,
                 self_input_dists = [],
                 self_lookups = module_create_lookups shardings,
                 self_output_dists = [],
                 self_feature_splits = [],
                 self_features_order = [],
                 self_features_order_tensor = None,
                 self_has_uninitialized_input_dist = True,
                 self_has_uninitialized_output_dist = True,
                 self_need_indices = qec_need_indices module,
                 self_tbes_registered = is_fused_param_register_tbe fused_params,
                 self_torch_state_initialized = False,
                 self_embeddings = None\<rparr>
     in
     if is_fused_param_quant_state_dict_split_scale_bias fused_params then
       Inr (self\<lparr>self_torch_state_initialized := True\<rparr>)
     else if \<not> list_all (\<lambda>sharding_type. sharding_type = TABLE_WISE)
                 (map fst sharding_type_to_sharding) then
       Inl AssertionError
     else
       bind_result
         (register_lookups (zip (map fst sharding_type_to_sharding) (self_lookups self))
            (map_of (map (\<lambda>table. (table, None)) (self_embedding_configs self))))
         (\<lambda>embeddings. Inr (self\<lparr>self_embeddings := Some embeddings\<rparr>)))"

subsection \<open>Lazy creation of the distributors\<close>

text \<open>
  The methods \<^verbatim>\<open>_create_input_dist\<close>, \<^verbatim>\<open>_create_lookups\<close> and \<^verbatim>\<open>_create_output_dist\<close> of the
  module are \<open>module_create_input_dist\<close>, \<open>module_create_lookups\<close> and
  \<open>module_create_output_dist\<close>; the methods of the same names of a strategy keep their
  names. A method that changes the module returns the module as it is when the method returns
  or raises: an exception does not undo the assignments made before it.
\<close>

fun index_of :: "'a list \<Rightarrow> 'a \<Rightarrow> nat option" where
  \<comment> \<open>\<^verbatim>\<open>xs.index(x)\<close>: the first position, \<open>None\<close> where Python raises \<^verbatim>\<open>ValueError\<close>\<close>
  "index_of [] x = None"
| "index_of (y # ys) x = (if y = x then Some 0 else map_option Suc (index_of ys x))"

fun create_input_dist_loop ::
  "'e sharding list \<Rightarrow> 'e ShardedQuantEmbeddingCollection \<times> string list \<Rightarrow>
   'e ShardedQuantEmbeddingCollection \<times> string list" where
  "create_input_dist_loop [] (self, names) = (self, names)"
| "create_input_dist_loop (sharding # rest) (self, names) =
     create_input_dist_loop rest
       (self\<lparr>self_input_dists := self_input_dists self @ [create_input_dist sharding],
              self_feature_splits := self_feature_splits self @ [length (feature_names sharding)]\<rparr>,
        names @ feature_names sharding)"

fun features_order_loop ::
  "string list \<Rightarrow> string list \<Rightarrow> nat list \<Rightarrow> (error + unit) \<times> nat list" where
  "features_order_loop [] input_feature_names order = (Inr (), order)"
| "features_order_loop (f # fs) input_feature_names order =
     (case index_of input_feature_names f of
        None \<Rightarrow> (Inl ValueError, order)
      | Some i \<Rightarrow> features_order_loop fs input_feature_names (order @ [i]))"

definition canonical_order :: "nat list \<Rightarrow> nat list" where
  \<comment> \<open>\<^verbatim>\<open>[] if order == list(range(len(order))) else order\<close>\<close>
  "canonical_order order = (if order = [0..<length order] then [] else order)"

definition module_create_input_dist ::
  "'e ShardedQuantEmbeddingCollection \<Rightarrow> string list \<Rightarrow>
   (error + unit) \<times> 'e ShardedQuantEmbeddingCollection" where
  "module_create_input_dist self input_feature_names =
     (case create_input_dist_loop (map snd (self_sharding_type_to_sharding self))
             (self\<lparr>self_feature_splits := []\<rparr>, []) of
        (self1, names) \<Rightarrow>
          (case features_order_loop names input_feature_names [] of
             (Inl e, order) \<Rightarrow> (Inl e, self1\<lparr>self_features_order := order\<rparr>)
           | (Inr _, order) \<Rightarrow>
               (Inr (), self1\<lparr>self_features_order := canonical_order order,
                               self_features_order_tensor := Some (canonical_order order)\<rparr>)))"

definition module_create_output_dist ::
  "'e ShardedQuantEmbeddingCollection \<Rightarrow> 'e ShardedQuantEmbeddingCollection" where
  "module_create_output_dist self =
     self\<lparr>self_output_dists := self_output_dists self
             @ map create_output_dist (map snd (self_sharding_type_to_sharding self))\<rparr>"

subsection \<open>The forward pass\<close>

text \<open>
  The loop over the input distributors in \<^verbatim>\<open>input_dist\<close>. It appends to the result and to the
  context, which is shared with the caller, so a raise returns the context as extended so
  far. \<open>features\<close> is the whole collection after the permutation, which is what the
  source stores as \<^verbatim>\<open>features_before_input_dist\<close>.
\<close>

fun input_dist_loop ::
  "nat list \<Rightarrow> input_dist list \<Rightarrow> KeyedJaggedTensor list \<Rightarrow> KeyedJaggedTensor \<Rightarrow>
   KeyedJaggedTensor list list \<times> EmbeddingCollectionContext \<Rightarrow>
   (error + KeyedJaggedTensor list list) \<times> EmbeddingCollectionContext" where
  "input_dist_loop [] input_dists features_by_sharding features (ret, ctx) = (Inr ret, ctx)"
| "input_dist_loop (i # is) input_dists features_by_sharding features (ret, ctx) =
     (case nth_checked input_dists i of
        Inl e \<Rightarrow> (Inl e, ctx)
      | Inr input_dist \<Rightarrow>
          (case nth_checked features_by_sharding i of
             Inl e \<Rightarrow> (Inl e, ctx)
           | Inr features_i \<Rightarrow>
               (let input_dist_result = input_dist_forward input_dist features_i in
                input_dist_loop is input_dists features_by_sharding features
                  (ret @ [input_dist_result],
                   ctx\<lparr>sharding_contexts := sharding_contexts ctx @
                     [\<lparr>sc_features = input_dist_result,
                       sc_features_before_input_dist = features,
                       sc_unbucketize_permute_tensor =
                         unbucketize_permute_tensor_after input_dist features_i\<rparr>]\<rparr>))))"

text \<open>
  \<^verbatim>\<open>input_dist\<close>, its two lazy creations first. With \<^verbatim>\<open>features\<close> being \<^verbatim>\<open>None\<close> the first
  attribute access on it raises on every path, before any assignment: \<^verbatim>\<open>features.device()\<close>
  among the arguments of \<^verbatim>\<open>_create_input_dist\<close> or of \<^verbatim>\<open>_create_output_dist\<close>, else
  \<^verbatim>\<open>features.permute\<close> or \<^verbatim>\<open>features.split\<close>.
\<close>

definition input_dist_init ::
  "'e ShardedQuantEmbeddingCollection \<Rightarrow> KeyedJaggedTensor \<Rightarrow>
   (error + unit) \<times> 'e ShardedQuantEmbeddingCollection" where
  "input_dist_init self features =
     (case (if self_has_uninitialized_input_dist self then
              (case module_create_input_dist self (kjt_keys features) of
                 (Inl e, self1) \<Rightarrow> (Inl e, self1)
               | (Inr u, self1) \<Rightarrow> (Inr u, self1\<lparr>self_has_uninitialized_input_dist := False\<rparr>))
            else (Inr (), self)) of
        (Inl e, self1) \<Rightarrow> (Inl e, self1)
      | (Inr u, self1) \<Rightarrow>
          (Inr u,
           if self_has_uninitialized_output_dist self1
           then (module_create_output_dist self1)\<lparr>self_has_uninitialized_output_dist := False\<rparr>
           else self1))"

text \<open>
  The block of \<^verbatim>\<open>input_dist\<close> under \<^verbatim>\<open>torch.no_grad()\<close>: it reads the module and extends the
  context.
\<close>

definition input_dist_distribute ::
  "'e ShardedQuantEmbeddingCollection \<Rightarrow> EmbeddingCollectionContext \<Rightarrow> KeyedJaggedTensor \<Rightarrow>
   (error + KeyedJaggedTensor list list) \<times> EmbeddingCollectionContext" where
  "input_dist_distribute self ctx features0 =
     (case (if self_features_order self \<noteq> []
            then kjt_permute features0 (self_features_order self)
            else Inr features0) of
        Inl e \<Rightarrow> (Inl e, ctx)
      | Inr features \<Rightarrow>
          (case kjt_split features (self_feature_splits self) of
             Inl e \<Rightarrow> (Inl e, ctx)
           | Inr features_by_sharding \<Rightarrow>
               input_dist_loop [0..<length (self_input_dists self)] (self_input_dists self)
                 features_by_sharding features ([], ctx)))"

definition input_dist ::
  "'e ShardedQuantEmbeddingCollection \<Rightarrow> EmbeddingCollectionContext \<Rightarrow> KeyedJaggedTensor option \<Rightarrow>
   (error + KeyedJaggedTensor list list) \<times> 'e ShardedQuantEmbeddingCollection
     \<times> EmbeddingCollectionContext" where
  "input_dist self ctx features_opt =
     (case features_opt of
        None \<Rightarrow> (Inl AttributeError, self, ctx)
      | Some features0 \<Rightarrow>
          (case input_dist_init self features0 of
             (Inl e, self') \<Rightarrow> (Inl e, self', ctx)
           | (Inr _, self') \<Rightarrow>
               (case input_dist_distribute self' ctx features0 of
                  (r, ctx') \<Rightarrow> (r, self', ctx'))))"

definition compute ::
  "'e ShardedQuantEmbeddingCollection \<Rightarrow> EmbeddingCollectionContext \<Rightarrow>
   KeyedJaggedTensor list list \<Rightarrow> 'e list list list" where
  "compute self ctx dist_input =
     map (\<lambda>(lookup, features). lookup_forward lookup features) (zip (self_lookups self) dist_input)"

text \<open>
  \<^verbatim>\<open>xs[i]\<close> for an integer index of either sign: the positions \<open>-1, -2, ...\<close> are read from
  the end of the list.
\<close>

definition py_index :: "'a list \<Rightarrow> int \<Rightarrow> error + 'a" where
  "py_index xs i =
     (if 0 \<le> i \<and> i < int (length xs) then Inr (xs ! nat i)
      else if i < 0 \<and> - int (length xs) \<le> i then Inr (xs ! nat (int (length xs) + i))
      else Inl IndexError)"

fun output_jt_dict_loop ::
  "bool \<Rightarrow> (string \<rightharpoonup> int list) \<Rightarrow> int list list \<Rightarrow>
   ('e list list \<times> KeyedJaggedTensor list \<times> string list list \<times> int \<times> KeyedJaggedTensor) list \<Rightarrow>
   'e jt_dict \<Rightarrow> error + 'e jt_dict" where
  "output_jt_dict_loop need_indices features_to_permute_indices unbucketize_tensors [] jt_dict =
     Inr jt_dict"
| "output_jt_dict_loop need_indices features_to_permute_indices unbucketize_tensors
       ((emb_sharding, features_sharding, names_per_rank, unbucketize_tensor_idx,
         features_before_input_dist) # rest) jt_dict =
     bind_result
       (if unbucketize_tensor_idx \<noteq> - 1
        then bind_result (py_index unbucketize_tensors unbucketize_tensor_idx) (\<lambda>t. Inr (Some t))
        else Inr None) (\<lambda>unbucketize_tensor.
     bind_result
       (construct_jagged_tensors emb_sharding features_sharding names_per_rank
          features_before_input_dist need_indices unbucketize_tensor features_to_permute_indices)
       (\<lambda>d.
     output_jt_dict_loop need_indices features_to_permute_indices unbucketize_tensors rest
       (jt_dict ++ d)))"

definition output_jt_dict ::
  "'e list list list \<Rightarrow> KeyedJaggedTensor list list \<Rightarrow> string list list list \<Rightarrow> bool \<Rightarrow>
   KeyedJaggedTensor list \<Rightarrow> (string \<rightharpoonup> int list) \<Rightarrow> int list list \<Rightarrow> int list \<Rightarrow>
   error + 'e jt_dict" where
  "output_jt_dict emb_per_sharding features_per_sharding embedding_names_per_rank_per_sharding
       need_indices features_before_input_dist_per_sharding features_to_permute_indices
       unbucketize_tensors unbucketize_tensor_idxs_per_sharding =
     output_jt_dict_loop need_indices features_to_permute_indices unbucketize_tensors
       (zip emb_per_sharding (zip features_per_sharding
          (zip embedding_names_per_rank_per_sharding
             (zip unbucketize_tensor_idxs_per_sharding features_before_input_dist_per_sharding))))
       Map.empty"

text \<open>The five lists that the loop of \<^verbatim>\<open>output_dist\<close> fills.\<close>

record 'e output_lists =
  emb_per_sharding :: "'e list list list"
  features_before_input_dist_per_sharding :: "KeyedJaggedTensor list"
  features_per_sharding :: "KeyedJaggedTensor list list"
  unbucketize_tensor_idxs_per_sharding :: "int list"
  unbucketize_tensors :: "int list list"

fun output_dist_loop ::
  "('e output_dist \<times> 'e list list \<times> InferSequenceShardingContext) list \<Rightarrow> 'e output_lists \<Rightarrow>
   'e output_lists" where
  "output_dist_loop [] acc = acc"
| "output_dist_loop ((sharding_output_dist, embeddings, sharding_ctx) # rest) acc =
     (let sharding_output_dist_res = output_dist_forward sharding_output_dist embeddings sharding_ctx;
          acc1 = acc\<lparr>emb_per_sharding := emb_per_sharding acc @ [sharding_output_dist_res],
                     features_per_sharding := features_per_sharding acc @ [sc_features sharding_ctx]\<rparr>;
          acc2 = (case sc_unbucketize_permute_tensor sharding_ctx of
                    None \<Rightarrow>
                      acc1\<lparr>unbucketize_tensor_idxs_per_sharding :=
                             unbucketize_tensor_idxs_per_sharding acc1 @ [- 1]\<rparr>
                  | Some t \<Rightarrow>
                      acc1\<lparr>unbucketize_tensors := unbucketize_tensors acc1 @ [t],
                           unbucketize_tensor_idxs_per_sharding :=
                             unbucketize_tensor_idxs_per_sharding acc1
                               @ [int (length (unbucketize_tensors acc1 @ [t])) - 1]\<rparr>)
      in output_dist_loop rest
           (acc2\<lparr>features_before_input_dist_per_sharding :=
                   features_before_input_dist_per_sharding acc2
                     @ [sc_features_before_input_dist sharding_ctx]\<rparr>))"

definition output_dist ::
  "'e ShardedQuantEmbeddingCollection \<Rightarrow> EmbeddingCollectionContext \<Rightarrow> 'e list list list \<Rightarrow>
   error + 'e jt_dict" where
  "output_dist self ctx output =
     (let acc = output_dist_loop
                  (zip (self_output_dists self) (zip output (sharding_contexts ctx)))
                  \<lparr>emb_per_sharding = [], features_before_input_dist_per_sharding = [],
                   features_per_sharding = [], unbucketize_tensor_idxs_per_sharding = [],
                   unbucketize_tensors = []\<rparr>
      in output_jt_dict (emb_per_sharding acc) (features_per_sharding acc)
           (self_embedding_names_per_rank_per_sharding self) (self_need_indices self)
           (features_before_input_dist_per_sharding acc) (self_features_to_permute_indices self)
           (unbucketize_tensors acc) (unbucketize_tensor_idxs_per_sharding acc))"

definition compute_and_output_dist ::
  "'e ShardedQuantEmbeddingCollection \<Rightarrow> EmbeddingCollectionContext \<Rightarrow>
   KeyedJaggedTensor list list \<Rightarrow> error + 'e jt_dict" where
  "compute_and_output_dist self ctx input = output_dist self ctx (compute self ctx input)"

definition create_context :: EmbeddingCollectionContext where
  "create_context = \<lparr>sharding_contexts = []\<rparr>"

definition forward ::
  "'e ShardedQuantEmbeddingCollection \<Rightarrow> KeyedJaggedTensor option \<Rightarrow>
   (error + 'e jt_dict) \<times> 'e ShardedQuantEmbeddingCollection" where
  "forward self input =
     (case input_dist self create_context input of
        (Inl e, self', ctx) \<Rightarrow> (Inl e, self')
      | (Inr dist_input, self', ctx) \<Rightarrow> (compute_and_output_dist self' ctx dist_input, self'))"

section \<open>Notions used to state the properties\<close>

text \<open>The dictionary of results with the weights of every jagged tensor removed.\<close>

definition without_weights :: "'e jt_dict \<Rightarrow> 'e jt_dict" where
  "without_weights d = (\<lambda>key. map_option (\<lambda>jt. jt\<lparr>jt_weights := None\<rparr>) (d key))"

text \<open>
  An entry of the table-wise result comes from the key at position \<open>k\<close> of some destination
  \<open>i\<close> and carries, when indices are requested, the \<open>k\<close>-th segment of that destination's
  values as weights.
\<close>

definition tw_entry :: "'e list list \<Rightarrow> KeyedJaggedTensor list \<Rightarrow> bool \<Rightarrow> string \<Rightarrow> 'e JaggedTensor \<Rightarrow> bool" where
  "tw_entry embeddings features need_indices key jt \<longleftrightarrow>
     (\<exists>i < length embeddings. \<exists>k < length (kjt_keys (features ! i)).
        kjt_keys (features ! i) ! k = key \<and>
        jt_weights jt = (if need_indices
                         then Some (split_with_sizes (kjt_values (features ! i))
                                      (length_per_key (features ! i)) ! k)
                         else None))"

text \<open>The sharding types for which \<^verbatim>\<open>create_infer_embedding_sharding\<close> creates a strategy.\<close>

definition supported :: "ShardingType \<Rightarrow> bool" where
  "supported sharding_type \<longleftrightarrow> sharding_type = TABLE_WISE \<or> sharding_type = ROW_WISE"

text \<open>
  A concrete strategy description for the examples: one destination, which receives the
  collection unchanged; the identity as unbucketize permutation; a lookup whose embedding
  row for an id is the id itself; an output distributor that returns the lookup output.
\<close>

definition single_destination :: "string list \<Rightarrow> int sharding_infos" where
  "single_destination names =
     \<lparr>si_feature_names = names,
      si_embedding_names = names,
      si_embedding_names_per_rank = [names],
      si_distribute = (\<lambda>f. [f]),
      si_unbucketize = (\<lambda>f. map int [0..<length (kjt_values f)]),
      si_lookup = \<lparr>lookup_forward = map kjt_values, lookup_state_dict = []\<rparr>,
      si_output_dist = \<lparr>output_dist_forward = (\<lambda>embeddings sharding_ctx. embeddings)\<rparr>\<rparr>"

text \<open>The feature names of all strategies of the module, in the order of the strategies.\<close>

definition all_feature_names :: "'e ShardedQuantEmbeddingCollection \<Rightarrow> string list" where
  "all_feature_names self =
     concat (map feature_names (map snd (self_sharding_type_to_sharding self)))"

text \<open>
  A batch and modules for the examples: two keys, two examples per batch, three values;
  a module as the constructor returns it for an assignment, with the split scale/bias flag
  set.
\<close>

definition example_batch :: KeyedJaggedTensor where
  "example_batch =
     \<lparr>kjt_keys = [''a'', ''b''], kjt_values = [5, 6, 7], kjt_lengths = [1, 1, 0, 1],
      kjt_stride = 2\<rparr>"

definition example_module ::
  "(ShardingType \<times> int sharding_infos) list \<Rightarrow> int ShardedQuantEmbeddingCollection" where
  "example_module assignment =
     projr (init \<lparr>qec_embedding_configs = [''t0'', ''t1''], qec_embedding_dim = 1,
                   qec_need_indices = True\<rparr>
              assignment
              (Some \<lparr>fp_register_tbe = False, fp_quant_state_dict_split_scale_bias = True\<rparr>))"

text \<open>
  A module in its steady state: constructed for one table-wise strategy that owns both
  features of the example batch, after its first \<^verbatim>\<open>input_dist\<close>.
\<close>

definition ready_module :: "int ShardedQuantEmbeddingCollection" where
  "ready_module =
     fst (snd (input_dist (example_module [(TABLE_WISE, single_destination [''a'', ''b''])])
                 create_context (Some example_batch)))"

section \<open>Reconstruction of the per-feature results: proofs\<close>

subsection \<open>Results, lists and the loop over the keys\<close>

lemma bind_result_simps [simp]:
  "bind_result (Inl e) f = Inl e"
  "bind_result (Inr x) f = f x"
  by (simp_all add: bind_result_def)

lemma bind_result_eq_Inr:
  "bind_result r f = Inr y \<longleftrightarrow> (\<exists>x. r = Inr x \<and> f x = Inr y)"
  by (cases r) simp_all

lemma nth_checked_eq_Inr:
  "nth_checked xs i = Inr x \<longleftrightarrow> i < length xs \<and> xs ! i = x"
  by (auto simp: nth_checked_def)

lemma assign_keys_other:
  "assign_keys mk kvs ret = Inr ret' \<Longrightarrow> key \<notin> snd ` set kvs \<Longrightarrow> ret' key = ret key"
proof (induction kvs arbitrary: ret)
  case Nil
  then show ?case by simp
next
  case (Cons a kvs)
  obtain i k where a: "a = (i, k)" by (cases a)
  from Cons.prems a obtain v where v: "mk i = Inr v"
    and rest: "assign_keys mk kvs (ret(k \<mapsto> v)) = Inr ret'"
    by (auto split: sum.splits)
  from Cons.prems(2) a have "key \<noteq> k" and "key \<notin> snd ` set kvs" by auto
  with Cons.IH [OF rest] show ?case by simp
qed

lemma assign_keys_last:
  "assign_keys mk (pre @ (i, key) # post) ret = Inr ret' \<Longrightarrow> key \<notin> snd ` set post \<Longrightarrow>
   \<exists>v. mk i = Inr v \<and> ret' key = Some v"
proof (induction pre arbitrary: ret)
  case Nil
  then obtain v where v: "mk i = Inr v"
    and rest: "assign_keys mk post (ret(key \<mapsto> v)) = Inr ret'"
    by (auto split: sum.splits)
  from assign_keys_other [OF rest Nil.prems(2)] v show ?case by simp
next
  case (Cons a pre)
  obtain j k where a: "a = (j, k)" by (cases a)
  from Cons.prems(1) a obtain v where
    rest: "assign_keys mk (pre @ (i, key) # post) (ret(k \<mapsto> v)) = Inr ret'"
    by (auto split: sum.splits)
  from Cons.IH [OF rest Cons.prems(2)] show ?case .
qed

lemma enumerate_split_at:
  "i < length xs \<Longrightarrow>
   enumerate n xs = enumerate n (take i xs) @ (n + i, xs ! i) # enumerate (Suc (n + i)) (drop (Suc i) xs)"
proof -
  assume i: "i < length xs"
  then have "xs = take i xs @ xs ! i # drop (Suc i) xs"
    by (simp add: id_take_nth_drop)
  then have "enumerate n xs = enumerate n (take i xs @ xs ! i # drop (Suc i) xs)"
    by simp
  also have "\<dots> = enumerate n (take i xs) @ (n + i, xs ! i) # enumerate (Suc (n + i)) (drop (Suc i) xs)"
    using i by (simp add: enumerate_append_eq min_def)
  finally show ?thesis .
qed

lemma snd_set_enumerate: "snd ` set (enumerate n xs) = set xs"
proof -
  have "snd ` set (enumerate n xs) = set (map snd (enumerate n xs))" by (simp only: set_map)
  then show ?thesis by simp
qed

lemma assign_keys_enumerate_last:
  assumes "assign_keys mk (enumerate 0 keys) ret = Inr ret'"
    and "i < length keys" and "keys ! i \<notin> set (drop (Suc i) keys)"
  shows "\<exists>v. mk i = Inr v \<and> ret' (keys ! i) = Some v"
proof -
  from assms(2) have "enumerate 0 keys =
      enumerate 0 (take i keys) @ (i, keys ! i) # enumerate (Suc i) (drop (Suc i) keys)"
    using enumerate_split_at [of i keys 0] by simp
  with assms(1) have "assign_keys mk
      (enumerate 0 (take i keys) @ (i, keys ! i) # enumerate (Suc i) (drop (Suc i) keys)) ret = Inr ret'"
    by simp
  moreover from assms(3) have "keys ! i \<notin> snd ` set (enumerate (Suc i) (drop (Suc i) keys))"
    by (simp add: snd_set_enumerate)
  ultimately show ?thesis by (rule assign_keys_last)
qed

lemma assign_keys_enumerate_other:
  "assign_keys mk (enumerate n keys) ret = Inr ret' \<Longrightarrow> key \<notin> set keys \<Longrightarrow> ret' key = ret key"
  using assign_keys_other [of mk "enumerate n keys" ret ret' key] by (simp add: snd_set_enumerate)

lemma view_unbind_nth:
  "view_unbind t s = Inr rows \<Longrightarrow> i < length rows \<Longrightarrow> rows ! i = take s (drop (i * s) t)"
  by (auto simp: view_unbind_def split: if_splits)

lemma torch_split_eq_Inr:
  "torch_split t ns = Inr segs \<longleftrightarrow> sum_list ns = length t \<and> segs = split_with_sizes t ns"
  by (auto simp: torch_split_def)

lemma length_split_with_sizes [simp]: "length (split_with_sizes t ns) = length ns"
  by (induction ns arbitrary: t) simp_all

lemma split_with_sizes_nth:
  "i < length ns \<Longrightarrow> split_with_sizes t ns ! i = take (ns ! i) (drop (sum_list (take i ns)) t)"
proof (induction ns arbitrary: t i)
  case Nil
  then show ?case by simp
next
  case (Cons n ns)
  show ?case
  proof (cases i)
    case 0
    then show ?thesis by simp
  next
    case (Suc j)
    with Cons.prems have "j < length ns" by simp
    from Cons.IH [OF this, of "drop n t"] Suc show ?thesis by (simp add: add.commute)
  qed
qed

lemma concat_split_with_sizes:
  "sum_list ns = length t \<Longrightarrow> concat (split_with_sizes t ns) = t"
proof (induction ns arbitrary: t)
  case Nil
  then show ?case by simp
next
  case (Cons n ns)
  then have "sum_list ns = length (drop n t)" by simp
  from Cons.IH [OF this] show ?case by simp
qed

subsection \<open>The reconstruction functions\<close>

lemma length_length_per_key [simp]: "length (length_per_key f) = length (kjt_keys f)"
  by (simp add: length_per_key_def)

lemma construct_rw_unfold:
  assumes "construct_jagged_tensors_rw embeddings fb need_indices ut = Inr ret"
  shows "embeddings \<noteq> [] \<and> list_all (\<lambda>j. 0 \<le> j \<and> j < int (length (concat embeddings))) ut \<and>
     sum_list (length_per_key fb) = length ut \<and>
     (\<exists>lengths_list values_list.
        view_unbind (kjt_lengths fb) (kjt_stride fb) = Inr lengths_list \<and>
        (if need_indices then torch_split (kjt_values fb) (length_per_key fb) else Inr []) = Inr values_list \<and>
        assign_keys (rw_jagged_tensor
            (split_with_sizes (map (\<lambda>j. concat embeddings ! nat j) ut) (length_per_key fb))
            lengths_list values_list need_indices)
          (enumerate 0 (kjt_keys fb)) Map.empty = Inr ret)"
  using assms
  by (auto simp: construct_jagged_tensors_rw_def bind_result_eq_Inr torch_concat_def
      index_select_def torch_split_eq_Inr split: if_splits)

lemma construct_rw_last:
  assumes ok: "construct_jagged_tensors_rw embeddings fb need_indices ut = Inr ret"
    and i: "i < length (kjt_keys fb)"
    and last: "kjt_keys fb ! i \<notin> set (drop (Suc i) (kjt_keys fb))"
  shows "ret (kjt_keys fb ! i) = Some
     \<lparr>jt_values = split_with_sizes (map (\<lambda>j. concat embeddings ! nat j) ut) (length_per_key fb) ! i,
      jt_lengths = key_lengths fb i,
      jt_weights = (if need_indices
                    then Some (split_with_sizes (kjt_values fb) (length_per_key fb) ! i) else None)\<rparr>"
proof -
  from construct_rw_unfold [OF ok] obtain lengths_list values_list where
    ll: "view_unbind (kjt_lengths fb) (kjt_stride fb) = Inr lengths_list"
    and vl: "(if need_indices then torch_split (kjt_values fb) (length_per_key fb) else Inr [])
               = Inr values_list"
    and loop: "assign_keys (rw_jagged_tensor
            (split_with_sizes (map (\<lambda>j. concat embeddings ! nat j) ut) (length_per_key fb))
            lengths_list values_list need_indices)
          (enumerate 0 (kjt_keys fb)) Map.empty = Inr ret"
    by blast
  from assign_keys_enumerate_last [OF loop i last] obtain jt where
    mk: "rw_jagged_tensor
            (split_with_sizes (map (\<lambda>j. concat embeddings ! nat j) ut) (length_per_key fb))
            lengths_list values_list need_indices i = Inr jt"
    and ret: "ret (kjt_keys fb ! i) = Some jt"
    by blast
  from mk have il: "i < length lengths_list"
    by (auto simp: rw_jagged_tensor_def bind_result_eq_Inr nth_checked_eq_Inr)
  from view_unbind_nth [OF ll il] have row: "lengths_list ! i = key_lengths fb i"
    by (simp add: key_lengths_def)
  from vl have vals: "need_indices \<Longrightarrow> values_list = split_with_sizes (kjt_values fb) (length_per_key fb)"
    by (simp add: torch_split_eq_Inr)
  from mk row vals have "jt =
     \<lparr>jt_values = split_with_sizes (map (\<lambda>j. concat embeddings ! nat j) ut) (length_per_key fb) ! i,
      jt_lengths = key_lengths fb i,
      jt_weights = (if need_indices
                    then Some (split_with_sizes (kjt_values fb) (length_per_key fb) ! i) else None)\<rparr>"
    by (auto simp: rw_jagged_tensor_def bind_result_eq_Inr nth_checked_eq_Inr split: if_splits)
  with ret show ?thesis by simp
qed

lemma tw_destination_unfold:
  assumes "tw_destination e f need_indices ret = Inr ret'"
  shows "sum_list (length_per_key f) = length e \<and>
     (need_indices \<longrightarrow> sum_list (length_per_key f) = length (kjt_values f)) \<and>
     (\<exists>lengths_tuple.
        view_unbind (kjt_lengths f) (kjt_stride f) = Inr lengths_tuple \<and>
        assign_keys (tw_jagged_tensor lengths_tuple (split_with_sizes e (length_per_key f))
            (if need_indices then Some (split_with_sizes (kjt_values f) (length_per_key f)) else None))
          (enumerate 0 (kjt_keys f)) ret = Inr ret')"
  using assms
  by (auto simp: tw_destination_def bind_result_eq_Inr torch_split_eq_Inr split: if_splits)

lemma tw_destination_other:
  assumes "tw_destination e f need_indices ret = Inr ret'" and "key \<notin> set (kjt_keys f)"
  shows "ret' key = ret key"
proof -
  from tw_destination_unfold [OF assms(1)] obtain mk where
    "assign_keys mk (enumerate 0 (kjt_keys f)) ret = Inr ret'" by blast
  from assign_keys_enumerate_other [OF this assms(2)] show ?thesis .
qed

lemma tw_destination_last:
  assumes ok: "tw_destination e f need_indices ret = Inr ret'"
    and k: "k < length (kjt_keys f)"
    and last: "kjt_keys f ! k \<notin> set (drop (Suc k) (kjt_keys f))"
  shows "ret' (kjt_keys f ! k) = Some
     \<lparr>jt_values = split_with_sizes e (length_per_key f) ! k,
      jt_lengths = key_lengths f k,
      jt_weights = (if need_indices
                    then Some (split_with_sizes (kjt_values f) (length_per_key f) ! k) else None)\<rparr>"
proof -
  from tw_destination_unfold [OF ok] obtain lengths_tuple where
    lt: "view_unbind (kjt_lengths f) (kjt_stride f) = Inr lengths_tuple"
    and loop: "assign_keys (tw_jagged_tensor lengths_tuple (split_with_sizes e (length_per_key f))
            (if need_indices then Some (split_with_sizes (kjt_values f) (length_per_key f)) else None))
          (enumerate 0 (kjt_keys f)) ret = Inr ret'"
    by blast
  from assign_keys_enumerate_last [OF loop k last] obtain jt where
    mk: "tw_jagged_tensor lengths_tuple (split_with_sizes e (length_per_key f))
            (if need_indices then Some (split_with_sizes (kjt_values f) (length_per_key f)) else None) k
          = Inr jt"
    and ret: "ret' (kjt_keys f ! k) = Some jt"
    by blast
  from mk have kl: "k < length lengths_tuple"
    by (auto simp: tw_jagged_tensor_def bind_result_eq_Inr nth_checked_eq_Inr)
  from view_unbind_nth [OF lt kl] have row: "lengths_tuple ! k = key_lengths f k"
    by (simp add: key_lengths_def)
  from mk row have "jt =
     \<lparr>jt_values = split_with_sizes e (length_per_key f) ! k,
      jt_lengths = key_lengths f k,
      jt_weights = (if need_indices
                    then Some (split_with_sizes (kjt_values f) (length_per_key f) ! k) else None)\<rparr>"
    by (auto simp: tw_jagged_tensor_def bind_result_eq_Inr nth_checked_eq_Inr split: if_splits)
  with ret show ?thesis by simp
qed

lemma tw_loop_other:
  "tw_loop is embeddings features need_indices ret = Inr ret' \<Longrightarrow>
   (\<forall>j \<in> set is. key \<notin> set (kjt_keys (features ! j))) \<Longrightarrow> ret' key = ret key"
proof (induction "is" arbitrary: ret)
  case Nil
  then show ?case by simp
next
  case (Cons i "is")
  from Cons.prems(1) obtain mid where
    step: "tw_destination (embeddings ! i) (features ! i) need_indices ret = Inr mid"
    and rest: "tw_loop is embeddings features need_indices mid = Inr ret'"
    by (auto simp: bind_result_eq_Inr nth_checked_eq_Inr)
  from Cons.prems(2) have here: "key \<notin> set (kjt_keys (features ! i))"
    and later: "\<forall>j \<in> set is. key \<notin> set (kjt_keys (features ! j))" by simp_all
  from Cons.IH [OF rest later] tw_destination_other [OF step here] show ?case by simp
qed

lemma tw_loop_last:
  "tw_loop (pre @ i # post) embeddings features need_indices ret = Inr ret' \<Longrightarrow>
   (\<forall>j \<in> set post. key \<notin> set (kjt_keys (features ! j))) \<Longrightarrow>
   i < length features \<and>
   (\<exists>mid mid'. tw_destination (embeddings ! i) (features ! i) need_indices mid = Inr mid' \<and>
      ret' key = mid' key)"
proof (induction pre arbitrary: ret)
  case Nil
  from Nil.prems(1) obtain mid where
    i: "i < length features"
    and step: "tw_destination (embeddings ! i) (features ! i) need_indices ret = Inr mid"
    and rest: "tw_loop post embeddings features need_indices mid = Inr ret'"
    by (auto simp: bind_result_eq_Inr nth_checked_eq_Inr)
  from tw_loop_other [OF rest Nil.prems(2)] i step show ?case by blast
next
  case (Cons a pre)
  from Cons.prems(1) obtain mid where
    rest: "tw_loop (pre @ i # post) embeddings features need_indices mid = Inr ret'"
    by (auto simp: bind_result_eq_Inr)
  from Cons.IH [OF rest Cons.prems(2)] show ?case .
qed

lemma construct_tw_last:
  assumes ok: "construct_jagged_tensors_tw embeddings features need_indices = Inr ret"
    and i: "i < length embeddings"
    and k: "k < length (kjt_keys (features ! i))"
    and last: "kjt_keys (features ! i) ! k \<notin> set (drop (Suc k) (kjt_keys (features ! i)))"
    and later: "\<forall>j. i < j \<and> j < length embeddings \<longrightarrow>
                  kjt_keys (features ! i) ! k \<notin> set (kjt_keys (features ! j))"
  shows "i < length features \<and> ret (kjt_keys (features ! i) ! k) = Some
     \<lparr>jt_values = split_with_sizes (embeddings ! i) (length_per_key (features ! i)) ! k,
      jt_lengths = key_lengths (features ! i) k,
      jt_weights = (if need_indices
                    then Some (split_with_sizes (kjt_values (features ! i))
                                 (length_per_key (features ! i)) ! k)
                    else None)\<rparr>"
proof -
  from i have "[0..<length embeddings] = [0..<i] @ i # [Suc i..<length embeddings]"
    by (metis le0 le_add_diff_inverse less_imp_le_nat upt_add_eq_append upt_conv_Cons)
  with ok have loop: "tw_loop ([0..<i] @ i # [Suc i..<length embeddings]) embeddings features
      need_indices Map.empty = Inr ret"
    by (simp add: construct_jagged_tensors_tw_def)
  from later have "\<forall>j \<in> set [Suc i..<length embeddings].
      kjt_keys (features ! i) ! k \<notin> set (kjt_keys (features ! j))" by simp
  from tw_loop_last [OF loop this] obtain mid mid' where
    il: "i < length features"
    and step: "tw_destination (embeddings ! i) (features ! i) need_indices mid = Inr mid'"
    and ret: "ret (kjt_keys (features ! i) ! k) = mid' (kjt_keys (features ! i) ! k)"
    by blast
  from tw_destination_last [OF step k last] ret il show ?thesis by simp
qed

lemma without_weights_empty [simp]: "without_weights Map.empty = Map.empty"
  by (simp add: without_weights_def)

lemma without_weights_upd [simp]:
  "without_weights (d(key \<mapsto> jt)) = (without_weights d)(key \<mapsto> jt\<lparr>jt_weights := None\<rparr>)"
  by (auto simp: without_weights_def)

lemma assign_keys_invariant:
  assumes "assign_keys mk kvs ret = Inr ret'"
    and "\<And>key v. ret key = Some v \<Longrightarrow> P key v"
    and "\<And>i key v. (i, key) \<in> set kvs \<Longrightarrow> mk i = Inr v \<Longrightarrow> P key v"
    and "ret' key = Some v"
  shows "P key v"
  using assms
proof (induction kvs arbitrary: ret)
  case Nil
  then show ?case by simp
next
  case (Cons a kvs)
  obtain i k where a: "a = (i, k)" by (cases a)
  from Cons.prems(1) a obtain w where w: "mk i = Inr w"
    and rest: "assign_keys mk kvs (ret(k \<mapsto> w)) = Inr ret'"
    by (auto split: sum.splits)
  have "P k w" using Cons.prems(3) [of i k w] a w by simp
  then have inv: "\<And>key v. (ret(k \<mapsto> w)) key = Some v \<Longrightarrow> P key v"
    using Cons.prems(2) by (auto split: if_splits)
  show ?case
    by (rule Cons.IH [OF rest inv _ Cons.prems(4)]) (auto intro: Cons.prems(3))
qed

lemma assign_keys_without_weights:
  assumes "assign_keys mk kvs ret = Inr ret'"
    and "\<And>i key v. (i, key) \<in> set kvs \<Longrightarrow> mk i = Inr v \<Longrightarrow> mk' i = Inr (v\<lparr>jt_weights := None\<rparr>)"
  shows "assign_keys mk' kvs (without_weights ret) = Inr (without_weights ret')"
  using assms
proof (induction kvs arbitrary: ret)
  case Nil
  then show ?case by simp
next
  case (Cons a kvs)
  obtain i k where a: "a = (i, k)" by (cases a)
  from Cons.prems(1) a obtain w where w: "mk i = Inr w"
    and rest: "assign_keys mk kvs (ret(k \<mapsto> w)) = Inr ret'"
    by (auto split: sum.splits)
  have w': "mk' i = Inr (w\<lparr>jt_weights := None\<rparr>)"
    using Cons.prems(2) [of i k w] a w by simp
  have "assign_keys mk' kvs (without_weights (ret(k \<mapsto> w))) = Inr (without_weights ret')"
    by (rule Cons.IH [OF rest]) (auto intro: Cons.prems(2))
  with a w' show ?case by simp
qed

lemma in_set_enumerate_0:
  "(i, key) \<in> set (enumerate 0 keys) \<longleftrightarrow> i < length keys \<and> keys ! i = key"
  by (auto simp: in_set_enumerate_eq)

lemma rw_jagged_tensor_modes:
  "rw_jagged_tensor segs rows vl True i = Inr jt \<Longrightarrow>
   rw_jagged_tensor segs rows vl' False i = Inr (jt\<lparr>jt_weights := None\<rparr>)"
  by (auto simp: rw_jagged_tensor_def bind_result_eq_Inr nth_checked_eq_Inr)

lemma tw_jagged_tensor_modes:
  "tw_jagged_tensor rows segs (Some vl) i = Inr jt \<Longrightarrow>
   tw_jagged_tensor rows segs None i = Inr (jt\<lparr>jt_weights := None\<rparr>)"
  by (auto simp: tw_jagged_tensor_def bind_result_eq_Inr nth_checked_eq_Inr)

lemma construct_rw_modes:
  assumes "construct_jagged_tensors_rw embeddings fb True ut = Inr d"
  shows "construct_jagged_tensors_rw embeddings fb False ut = Inr (without_weights d)"
proof -
  from construct_rw_unfold [OF assms] obtain lengths_list values_list where
    pre: "embeddings \<noteq> []" "list_all (\<lambda>j. 0 \<le> j \<and> j < int (length (concat embeddings))) ut"
      "sum_list (length_per_key fb) = length ut"
    and ll: "view_unbind (kjt_lengths fb) (kjt_stride fb) = Inr lengths_list"
    and loop: "assign_keys (rw_jagged_tensor
            (split_with_sizes (map (\<lambda>j. concat embeddings ! nat j) ut) (length_per_key fb))
            lengths_list values_list True)
          (enumerate 0 (kjt_keys fb)) Map.empty = Inr d"
    by auto
  have "assign_keys (rw_jagged_tensor
            (split_with_sizes (map (\<lambda>j. concat embeddings ! nat j) ut) (length_per_key fb))
            lengths_list [] False)
          (enumerate 0 (kjt_keys fb)) (without_weights Map.empty) = Inr (without_weights d)"
    by (rule assign_keys_without_weights [OF loop]) (rule rw_jagged_tensor_modes)
  with pre ll show ?thesis
    by (simp add: construct_jagged_tensors_rw_def torch_concat_def index_select_def
        torch_split_def)
qed

lemma tw_destination_modes:
  assumes "tw_destination e f True ret = Inr ret'"
  shows "tw_destination e f False (without_weights ret) = Inr (without_weights ret')"
proof -
  from tw_destination_unfold [OF assms] obtain lengths_tuple where
    pre: "sum_list (length_per_key f) = length e"
    and lt: "view_unbind (kjt_lengths f) (kjt_stride f) = Inr lengths_tuple"
    and loop: "assign_keys (tw_jagged_tensor lengths_tuple (split_with_sizes e (length_per_key f))
            (Some (split_with_sizes (kjt_values f) (length_per_key f))))
          (enumerate 0 (kjt_keys f)) ret = Inr ret'"
    by auto
  have "assign_keys (tw_jagged_tensor lengths_tuple (split_with_sizes e (length_per_key f)) None)
          (enumerate 0 (kjt_keys f)) (without_weights ret) = Inr (without_weights ret')"
    by (rule assign_keys_without_weights [OF loop]) (rule tw_jagged_tensor_modes)
  with pre lt show ?thesis
    by (simp add: tw_destination_def torch_split_def)
qed

lemma tw_loop_modes:
  "tw_loop is embeddings features True ret = Inr ret' \<Longrightarrow>
   tw_loop is embeddings features False (without_weights ret) = Inr (without_weights ret')"
proof (induction "is" arbitrary: ret)
  case Nil
  then show ?case by simp
next
  case (Cons i "is")
  from Cons.prems obtain mid where
    i: "i < length embeddings" "i < length features"
    and step: "tw_destination (embeddings ! i) (features ! i) True ret = Inr mid"
    and rest: "tw_loop is embeddings features True mid = Inr ret'"
    by (auto simp: bind_result_eq_Inr nth_checked_eq_Inr)
  from tw_destination_modes [OF step] Cons.IH [OF rest] i show ?case
    by (simp add: nth_checked_def)
qed

lemma construct_tw_modes:
  assumes "construct_jagged_tensors_tw embeddings features True = Inr d"
  shows "construct_jagged_tensors_tw embeddings features False = Inr (without_weights d)"
  using tw_loop_modes [of "[0..<length embeddings]" embeddings features Map.empty d] assms
  by (simp add: construct_jagged_tensors_tw_def)

text \<open>Every entry of the result was built by the loop from one key position.\<close>

lemma construct_rw_entries:
  assumes ok: "construct_jagged_tensors_rw embeddings fb need_indices ut = Inr d"
    and entry: "d key = Some jt"
  shows "\<exists>i < length (kjt_keys fb). kjt_keys fb ! i = key \<and>
     jt_weights jt = (if need_indices
                      then Some (split_with_sizes (kjt_values fb) (length_per_key fb) ! i) else None)"
proof -
  from construct_rw_unfold [OF ok] obtain lengths_list values_list where
    vl: "(if need_indices then torch_split (kjt_values fb) (length_per_key fb) else Inr [])
               = Inr values_list"
    and loop: "assign_keys (rw_jagged_tensor
            (split_with_sizes (map (\<lambda>j. concat embeddings ! nat j) ut) (length_per_key fb))
            lengths_list values_list need_indices)
          (enumerate 0 (kjt_keys fb)) Map.empty = Inr d"
    by blast
  from vl have vals: "need_indices \<Longrightarrow> values_list = split_with_sizes (kjt_values fb) (length_per_key fb)"
    by (simp add: torch_split_eq_Inr)
  show ?thesis
  proof (rule assign_keys_invariant [OF loop _ _ entry])
    fix key v assume "Map.empty key = Some (v :: 'a JaggedTensor)"
    then show "\<exists>i < length (kjt_keys fb). kjt_keys fb ! i = key \<and>
       jt_weights v = (if need_indices
                      then Some (split_with_sizes (kjt_values fb) (length_per_key fb) ! i) else None)"
      by simp
  next
    fix i key v
    assume "(i, key) \<in> set (enumerate 0 (kjt_keys fb))"
      and "rw_jagged_tensor
            (split_with_sizes (map (\<lambda>j. concat embeddings ! nat j) ut) (length_per_key fb))
            lengths_list values_list need_indices i = Inr v"
    with vals show "\<exists>i < length (kjt_keys fb). kjt_keys fb ! i = key \<and>
       jt_weights v = (if need_indices
                      then Some (split_with_sizes (kjt_values fb) (length_per_key fb) ! i) else None)"
      by (auto simp: in_set_enumerate_0 rw_jagged_tensor_def bind_result_eq_Inr nth_checked_eq_Inr
          split: if_splits)
  qed
qed

lemma tw_destination_entries:
  assumes ok: "tw_destination (embeddings ! i) (features ! i) need_indices ret = Inr ret'"
    and i: "i < length embeddings"
    and inv: "\<And>key jt. ret key = Some jt \<Longrightarrow> tw_entry embeddings features need_indices key jt"
    and entry: "ret' key = Some jt"
  shows "tw_entry embeddings features need_indices key jt"
proof -
  from tw_destination_unfold [OF ok] obtain lengths_tuple where
    loop: "assign_keys (tw_jagged_tensor lengths_tuple
            (split_with_sizes (embeddings ! i) (length_per_key (features ! i)))
            (if need_indices then Some (split_with_sizes (kjt_values (features ! i))
               (length_per_key (features ! i))) else None))
          (enumerate 0 (kjt_keys (features ! i))) ret = Inr ret'"
    by blast
  show ?thesis
  proof (rule assign_keys_invariant [OF loop _ _ entry])
    fix key v assume "ret key = Some v"
    then show "tw_entry embeddings features need_indices key v" by (rule inv)
  next
    fix k key v
    assume "(k, key) \<in> set (enumerate 0 (kjt_keys (features ! i)))"
      and "tw_jagged_tensor lengths_tuple
            (split_with_sizes (embeddings ! i) (length_per_key (features ! i)))
            (if need_indices then Some (split_with_sizes (kjt_values (features ! i))
               (length_per_key (features ! i))) else None) k = Inr v"
    with i show "tw_entry embeddings features need_indices key v"
      unfolding tw_entry_def
      by (intro exI [of _ i] conjI exI [of _ k])
        (auto simp: in_set_enumerate_0 tw_jagged_tensor_def bind_result_eq_Inr nth_checked_eq_Inr
          split: if_splits)
  qed
qed

lemma tw_loop_entries:
  "tw_loop is embeddings features need_indices ret = Inr ret' \<Longrightarrow>
   (\<And>key jt. ret key = Some jt \<Longrightarrow> tw_entry embeddings features need_indices key jt) \<Longrightarrow>
   ret' key = Some jt \<Longrightarrow> tw_entry embeddings features need_indices key jt"
proof (induction "is" arbitrary: ret)
  case Nil
  then show ?case by simp
next
  case (Cons i "is")
  from Cons.prems(1) obtain mid where
    i: "i < length embeddings"
    and step: "tw_destination (embeddings ! i) (features ! i) need_indices ret = Inr mid"
    and rest: "tw_loop is embeddings features need_indices mid = Inr ret'"
    by (auto simp: bind_result_eq_Inr nth_checked_eq_Inr)
  have "\<And>key jt. mid key = Some jt \<Longrightarrow> tw_entry embeddings features need_indices key jt"
    using tw_destination_entries [OF step i] Cons.prems(2) by blast
  from Cons.IH [OF rest this Cons.prems(3)] show ?case .
qed

lemma construct_tw_entries:
  assumes "construct_jagged_tensors_tw embeddings features need_indices = Inr d"
    and "d key = Some jt"
  shows "tw_entry embeddings features need_indices key jt"
  using tw_loop_entries [of "[0..<length embeddings]" embeddings features need_indices Map.empty d key jt]
    assms
  by (simp add: construct_jagged_tensors_tw_def)

lemma tw_loop_sizes:
  "tw_loop is embeddings features need_indices ret = Inr ret' \<Longrightarrow> i \<in> set is \<Longrightarrow>
   i < length features \<and> sum_list (length_per_key (features ! i)) = length (embeddings ! i)"
proof (induction "is" arbitrary: ret)
  case Nil
  then show ?case by simp
next
  case (Cons a "is")
  from Cons.prems(1) obtain mid where
    a: "a < length features"
    and step: "tw_destination (embeddings ! a) (features ! a) need_indices ret = Inr mid"
    and rest: "tw_loop is embeddings features need_indices mid = Inr ret'"
    by (auto simp: bind_result_eq_Inr nth_checked_eq_Inr)
  show ?case
  proof (cases "i = a")
    case True
    with a tw_destination_unfold [OF step] show ?thesis by simp
  next
    case False
    with Cons.prems(2) have "i \<in> set is" by simp
    from Cons.IH [OF rest this] show ?thesis .
  qed
qed

lemma construct_tw_sizes:
  assumes "construct_jagged_tensors_tw embeddings features need_indices = Inr ret"
    and "i < length embeddings"
  shows "sum_list (length_per_key (features ! i)) = length (embeddings ! i)"
  using tw_loop_sizes [of "[0..<length embeddings]" embeddings features need_indices Map.empty ret i]
    assms
  by (simp add: construct_jagged_tensors_tw_def)

subsection \<open>Well-formed arguments: the reconstruction returns\<close>

lemma assign_keys_returns:
  "(\<And>i key. (i, key) \<in> set kvs \<Longrightarrow> \<exists>v. mk i = Inr v) \<Longrightarrow>
   \<exists>ret'. assign_keys mk kvs ret = Inr ret'"
proof (induction kvs arbitrary: ret)
  case Nil
  then show ?case by simp
next
  case (Cons a kvs)
  obtain i k where a: "a = (i, k)" by (cases a)
  from Cons.prems [of i k] a obtain v where v: "mk i = Inr v" by auto
  have "\<exists>ret'. assign_keys mk kvs (ret(k \<mapsto> v)) = Inr ret'"
    by (rule Cons.IH) (auto intro: Cons.prems)
  with a v show ?case by simp
qed

lemma view_unbind_runs:
  assumes "0 < kjt_stride f" and "length (kjt_lengths f) = length (kjt_keys f) * kjt_stride f"
  shows "\<exists>rows. view_unbind (kjt_lengths f) (kjt_stride f) = Inr rows
             \<and> length rows = length (kjt_keys f)"
  using assms by (simp add: view_unbind_def)

lemma construct_rw_returns:
  assumes "embeddings \<noteq> []"
    and "list_all (\<lambda>j. 0 \<le> j \<and> j < int (length (concat embeddings))) ut"
    and "sum_list (length_per_key fb) = length ut"
    and "0 < kjt_stride fb"
    and "length (kjt_lengths fb) = length (kjt_keys fb) * kjt_stride fb"
    and "need_indices \<longrightarrow> kjt_consistent fb"
  shows "\<exists>ret. construct_jagged_tensors_rw embeddings fb need_indices ut = Inr ret"
proof -
  from view_unbind_runs [OF assms(4,5)] obtain rows where
    rows: "view_unbind (kjt_lengths fb) (kjt_stride fb) = Inr rows"
      "length rows = length (kjt_keys fb)" by blast
  let ?segs = "split_with_sizes (map (\<lambda>j. concat embeddings ! nat j) ut) (length_per_key fb)"
  let ?vl = "if need_indices then split_with_sizes (kjt_values fb) (length_per_key fb) else []"
  have "\<exists>ret. assign_keys (rw_jagged_tensor ?segs rows ?vl need_indices)
      (enumerate 0 (kjt_keys fb)) Map.empty = Inr ret"
  proof (rule assign_keys_returns)
    fix i key assume "(i, key) \<in> set (enumerate 0 (kjt_keys fb))"
    then have "i < length (kjt_keys fb)" by (simp add: in_set_enumerate_0)
    with rows(2) show "\<exists>v. rw_jagged_tensor ?segs rows ?vl need_indices i = Inr v"
      by (simp add: rw_jagged_tensor_def nth_checked_def)
  qed
  with assms(1,2,3,6) rows(1) show ?thesis
    by (cases need_indices)
      (auto simp: construct_jagged_tensors_rw_def torch_concat_def index_select_def
        torch_split_def kjt_consistent_def)
qed

lemma tw_destination_returns:
  assumes "sum_list (length_per_key f) = length e"
    and "0 < kjt_stride f"
    and "length (kjt_lengths f) = length (kjt_keys f) * kjt_stride f"
    and "need_indices \<longrightarrow> kjt_consistent f"
  shows "\<exists>ret'. tw_destination e f need_indices ret = Inr ret'"
proof -
  from view_unbind_runs [OF assms(2,3)] obtain rows where
    rows: "view_unbind (kjt_lengths f) (kjt_stride f) = Inr rows"
      "length rows = length (kjt_keys f)" by blast
  let ?segs = "split_with_sizes e (length_per_key f)"
  let ?vl = "if need_indices then Some (split_with_sizes (kjt_values f) (length_per_key f)) else None"
  have "\<exists>ret'. assign_keys (tw_jagged_tensor rows ?segs ?vl) (enumerate 0 (kjt_keys f)) ret
      = Inr ret'"
  proof (rule assign_keys_returns)
    fix i key assume "(i, key) \<in> set (enumerate 0 (kjt_keys f))"
    then have "i < length (kjt_keys f)" by (simp add: in_set_enumerate_0)
    with rows(2) show "\<exists>v. tw_jagged_tensor rows ?segs ?vl i = Inr v"
      by (simp add: tw_jagged_tensor_def nth_checked_def)
  qed
  with assms(1,4) rows(1) show ?thesis
    by (cases need_indices) (auto simp: tw_destination_def torch_split_def kjt_consistent_def)
qed

lemma tw_loop_returns:
  "(\<And>i. i \<in> set is \<Longrightarrow> i < length embeddings \<and> i < length features
       \<and> sum_list (length_per_key (features ! i)) = length (embeddings ! i)
       \<and> 0 < kjt_stride (features ! i)
       \<and> length (kjt_lengths (features ! i))
           = length (kjt_keys (features ! i)) * kjt_stride (features ! i)
       \<and> (need_indices \<longrightarrow> kjt_consistent (features ! i))) \<Longrightarrow>
   \<exists>ret'. tw_loop is embeddings features need_indices ret = Inr ret'"
proof (induction "is" arbitrary: ret)
  case Nil
  then show ?case by simp
next
  case (Cons i "is")
  from Cons.prems [of i] have i: "i < length embeddings" "i < length features"
    and wf: "sum_list (length_per_key (features ! i)) = length (embeddings ! i)"
      "0 < kjt_stride (features ! i)"
      "length (kjt_lengths (features ! i))
           = length (kjt_keys (features ! i)) * kjt_stride (features ! i)"
      "need_indices \<longrightarrow> kjt_consistent (features ! i)"
    by simp_all
  from tw_destination_returns [OF wf] obtain mid where
    mid: "tw_destination (embeddings ! i) (features ! i) need_indices ret = Inr mid" by blast
  have "\<exists>ret'. tw_loop is embeddings features need_indices mid = Inr ret'"
    by (rule Cons.IH) (simp add: Cons.prems)
  with i mid show ?case by (simp add: nth_checked_def)
qed

lemma construct_tw_returns:
  assumes "length embeddings \<le> length features"
    and "\<And>i. i < length embeddings \<Longrightarrow>
       sum_list (length_per_key (features ! i)) = length (embeddings ! i)
       \<and> 0 < kjt_stride (features ! i)
       \<and> length (kjt_lengths (features ! i))
           = length (kjt_keys (features ! i)) * kjt_stride (features ! i)
       \<and> (need_indices \<longrightarrow> kjt_consistent (features ! i))"
  shows "\<exists>ret. construct_jagged_tensors_tw embeddings features need_indices = Inr ret"
  unfolding construct_jagged_tensors_tw_def
  by (rule tw_loop_returns) (use assms in auto)

subsection \<open>Claims C1, C2 and C8\<close>

text \<open>
  C1. Row-wise reconstruction. Whenever \<^verbatim>\<open>_construct_jagged_tensors_rw\<close> returns, the tensors
  of all destinations were concatenated along dimension 0, \<^verbatim>\<open>index_select\<close> with the
  unbucketize permutation was applied to the concatenation, and the outcome was split by
  \<^verbatim>\<open>length_per_key()\<close> of \<^verbatim>\<open>features_before_input_dist\<close>; the jagged tensor stored under the
  \<open>i\<close>-th key has the \<open>i\<close>-th segment of that split as values (and the \<open>i\<close>-th row of
  lengths). A key that occurs again later in the key list is overwritten by the later
  occurrence, hence the third premise. \<^verbatim>\<open>_construct_jagged_tensors\<close> takes this path exactly
  when it is given an unbucketize permutation.
\<close>

theorem construct_jagged_tensors_rw_segments:
  assumes ok: "construct_jagged_tensors_rw embeddings fb need_indices ut = Inr ret"
    and i: "i < length (kjt_keys fb)"
    and last: "kjt_keys fb ! i \<notin> set (drop (Suc i) (kjt_keys fb))"
  shows "construct_jagged_tensors embeddings features names fb need_indices (Some ut) perm = Inr ret
    \<and> torch_concat embeddings = Inr (concat embeddings)
    \<and> index_select (concat embeddings) ut = Inr (map (\<lambda>j. concat embeddings ! nat j) ut)
    \<and> torch_split (map (\<lambda>j. concat embeddings ! nat j) ut) (length_per_key fb)
        = Inr (split_with_sizes (map (\<lambda>j. concat embeddings ! nat j) ut) (length_per_key fb))
    \<and> (\<exists>jt. ret (kjt_keys fb ! i) = Some jt
          \<and> jt_values jt
              = split_with_sizes (map (\<lambda>j. concat embeddings ! nat j) ut) (length_per_key fb) ! i
          \<and> jt_values jt
              = take (length_per_key fb ! i)
                  (drop (sum_list (take i (length_per_key fb)))
                     (map (\<lambda>j. concat embeddings ! nat j) ut))
          \<and> jt_lengths jt = key_lengths fb i)"
proof -
  from construct_rw_unfold [OF ok] have pre: "embeddings \<noteq> []"
    "list_all (\<lambda>j. 0 \<le> j \<and> j < int (length (concat embeddings))) ut"
    "sum_list (length_per_key fb) = length ut"
    by simp_all
  have dispatch: "construct_jagged_tensors embeddings features names fb need_indices (Some ut) perm
      = Inr ret"
    using ok by (simp add: construct_jagged_tensors_def)
  have cat: "torch_concat embeddings = Inr (concat embeddings)"
    using pre(1) by (simp add: torch_concat_def)
  have sel: "index_select (concat embeddings) ut = Inr (map (\<lambda>j. concat embeddings ! nat j) ut)"
    using pre(2) by (simp add: index_select_def)
  have spl: "torch_split (map (\<lambda>j. concat embeddings ! nat j) ut) (length_per_key fb)
        = Inr (split_with_sizes (map (\<lambda>j. concat embeddings ! nat j) ut) (length_per_key fb))"
    using pre(3) by (simp add: torch_split_def)
  from i have "i < length (length_per_key fb)" by simp
  from split_with_sizes_nth [OF this] construct_rw_last [OF ok i last]
  have entry: "\<exists>jt. ret (kjt_keys fb ! i) = Some jt
          \<and> jt_values jt
              = split_with_sizes (map (\<lambda>j. concat embeddings ! nat j) ut) (length_per_key fb) ! i
          \<and> jt_values jt
              = take (length_per_key fb ! i)
                  (drop (sum_list (take i (length_per_key fb)))
                     (map (\<lambda>j. concat embeddings ! nat j) ut))
          \<and> jt_lengths jt = key_lengths fb i"
    by simp
  from dispatch cat sel spl entry show ?thesis by blast
qed

theorem construct_jagged_tensors_rw_segments_witness:
  "\<exists>ret. construct_jagged_tensors_rw [[10, 11], [12::nat]]
       \<lparr>kjt_keys = [''a'', ''b''], kjt_values = [5, 6, 7], kjt_lengths = [1, 1, 0, 1],
        kjt_stride = 2\<rparr> True [2, 0, 1] = Inr ret
     \<and> (\<exists>jt. ret ''a'' = Some jt \<and> jt_values jt = [12, 10] \<and> jt_lengths jt = [1, 1])"
proof -
  let ?fb = "\<lparr>kjt_keys = [''a'', ''b''], kjt_values = [5, 6, 7], kjt_lengths = [1, 1, 0, 1],
        kjt_stride = 2\<rparr>"
  have ok: "construct_jagged_tensors_rw [[10, 11], [12::nat]] ?fb True [2, 0, 1]
     = Inr [''a'' \<mapsto> \<lparr>jt_values = [12, 10], jt_lengths = [1, 1], jt_weights = Some [5, 6]\<rparr>,
            ''b'' \<mapsto> \<lparr>jt_values = [11], jt_lengths = [0, 1], jt_weights = Some [7]\<rparr>]"
    by (simp add: construct_jagged_tensors_rw_def torch_concat_def index_select_def
        torch_split_def view_unbind_def length_per_key_def key_lengths_def rw_jagged_tensor_def
        nth_checked_def)
  have i: "0 < length (kjt_keys ?fb)" by simp
  have last: "kjt_keys ?fb ! 0 \<notin> set (drop (Suc 0) (kjt_keys ?fb))" by simp
  from construct_jagged_tensors_rw_segments [OF ok i last, of "[]" "[]" Map.empty]
  have "\<exists>jt. [''a'' \<mapsto> \<lparr>jt_values = [12, 10], jt_lengths = [1, 1], jt_weights = Some [5, 6]\<rparr>,
            ''b'' \<mapsto> \<lparr>jt_values = [11::nat], jt_lengths = [0, 1], jt_weights = Some [7]\<rparr>] ''a''
          = Some jt \<and> jt_values jt = [12, 10] \<and> jt_lengths jt = [1, 1]"
    by (simp add: length_per_key_def key_lengths_def)
  with ok show ?thesis by blast
qed

text \<open>
  C2. Table-wise reconstruction. Whenever \<^verbatim>\<open>_construct_jagged_tensors_tw\<close> returns, then for
  every destination \<open>i\<close> the raw tensor of that destination was split by \<^verbatim>\<open>length_per_key()\<close>
  of the destination's own post-distribution features, and the jagged tensor stored under
  the \<open>k\<close>-th key of destination \<open>i\<close> has the \<open>k\<close>-th segment as values and the \<open>k\<close>-th row
  of lengths: a slice of \<open>embeddings ! i\<close> alone, in its original order, determined by the
  lengths only. The premises say that the key is not assigned again later, at a later
  position of the same destination or by a later destination.
\<close>

theorem construct_jagged_tensors_tw_segments:
  assumes ok: "construct_jagged_tensors_tw embeddings features need_indices = Inr ret"
    and i: "i < length embeddings"
    and k: "k < length (kjt_keys (features ! i))"
    and last: "kjt_keys (features ! i) ! k \<notin> set (drop (Suc k) (kjt_keys (features ! i)))"
    and later: "\<forall>j. i < j \<and> j < length embeddings \<longrightarrow>
                  kjt_keys (features ! i) ! k \<notin> set (kjt_keys (features ! j))"
  shows "i < length features
    \<and> torch_split (embeddings ! i) (length_per_key (features ! i))
        = Inr (split_with_sizes (embeddings ! i) (length_per_key (features ! i)))
    \<and> (\<exists>jt. ret (kjt_keys (features ! i) ! k) = Some jt
          \<and> jt_values jt = split_with_sizes (embeddings ! i) (length_per_key (features ! i)) ! k
          \<and> jt_values jt
              = take (length_per_key (features ! i) ! k)
                  (drop (sum_list (take k (length_per_key (features ! i)))) (embeddings ! i))
          \<and> jt_lengths jt = key_lengths (features ! i) k)"
proof -
  from construct_tw_last [OF ok i k last later]
  have il: "i < length features"
    and entry: "ret (kjt_keys (features ! i) ! k) = Some
     \<lparr>jt_values = split_with_sizes (embeddings ! i) (length_per_key (features ! i)) ! k,
      jt_lengths = key_lengths (features ! i) k,
      jt_weights = (if need_indices
                    then Some (split_with_sizes (kjt_values (features ! i))
                                 (length_per_key (features ! i)) ! k)
                    else None)\<rparr>"
    by simp_all
  from ok i have "sum_list (length_per_key (features ! i)) = length (embeddings ! i)"
    by (rule construct_tw_sizes)
  then have spl: "torch_split (embeddings ! i) (length_per_key (features ! i))
        = Inr (split_with_sizes (embeddings ! i) (length_per_key (features ! i)))"
    by (simp add: torch_split_def)
  from k have "k < length (length_per_key (features ! i))" by simp
  from split_with_sizes_nth [OF this] entry il spl show ?thesis by simp
qed

theorem construct_jagged_tensors_tw_segments_witness:
  "\<exists>ret. construct_jagged_tensors_tw [[10, 11, 12::nat], [20]]
       [\<lparr>kjt_keys = [''a'', ''b''], kjt_values = [5, 6, 7], kjt_lengths = [1, 1, 0, 1],
         kjt_stride = 2\<rparr>,
        \<lparr>kjt_keys = [''c''], kjt_values = [9], kjt_lengths = [1, 0], kjt_stride = 2\<rparr>] False
       = Inr ret
     \<and> (\<exists>jt. ret ''b'' = Some jt \<and> jt_values jt = [12] \<and> jt_lengths jt = [0, 1])"
proof -
  let ?embs = "[[10, 11, 12::nat], [20]]"
  let ?fs = "[\<lparr>kjt_keys = [''a'', ''b''], kjt_values = [5, 6, 7], kjt_lengths = [1, 1, 0, 1],
         kjt_stride = 2\<rparr>,
        \<lparr>kjt_keys = [''c''], kjt_values = [9], kjt_lengths = [1, 0], kjt_stride = 2\<rparr>]"
  let ?ret = "[''a'' \<mapsto> \<lparr>jt_values = [10, 11::nat], jt_lengths = [1, 1], jt_weights = None\<rparr>,
            ''b'' \<mapsto> \<lparr>jt_values = [12], jt_lengths = [0, 1], jt_weights = None\<rparr>,
            ''c'' \<mapsto> \<lparr>jt_values = [20], jt_lengths = [1, 0], jt_weights = None\<rparr>]"
  have ok: "construct_jagged_tensors_tw ?embs ?fs False = Inr ?ret"
    by (simp add: construct_jagged_tensors_tw_def tw_destination_def torch_split_def
        view_unbind_def length_per_key_def key_lengths_def tw_jagged_tensor_def nth_checked_def)
  have i: "0 < length ?embs" by simp
  have k: "1 < length (kjt_keys (?fs ! 0))" by simp
  have last: "kjt_keys (?fs ! 0) ! 1 \<notin> set (drop (Suc 1) (kjt_keys (?fs ! 0)))" by simp
  have later: "\<forall>j. 0 < j \<and> j < length ?embs \<longrightarrow>
      kjt_keys (?fs ! 0) ! 1 \<notin> set (kjt_keys (?fs ! j))"
  proof (intro allI impI)
    fix j :: nat assume "0 < j \<and> j < length ?embs"
    then have "j = 1" by simp
    then show "kjt_keys (?fs ! 0) ! 1 \<notin> set (kjt_keys (?fs ! j))" by simp
  qed
  from construct_jagged_tensors_tw_segments [OF ok i k last later]
  have "\<exists>jt. ?ret ''b'' = Some jt \<and> jt_values jt = [12] \<and> jt_lengths jt = [0, 1]"
    by (simp add: length_per_key_def key_lengths_def)
  with ok show ?thesis by blast
qed

text \<open>
  C8. Indices requested or not, in both reconstruction paths. When the call with
  \<^verbatim>\<open>need_indices\<close> true returns a dictionary, the call with \<^verbatim>\<open>need_indices\<close> false on the same
  arguments returns the same dictionary with every weights field set to \<^verbatim>\<open>None\<close>: the same
  keys, lengths and embedding values. With indices requested every returned jagged tensor
  carries as weights a per-key segment of the input values (of \<^verbatim>\<open>features_before_input_dist\<close>
  on the row-wise path, of the destination's features on the table-wise path); without,
  every returned jagged tensor has no weights.
\<close>

theorem need_indices_modes:
  "(construct_jagged_tensors_rw embeddings fb True ut = Inr d \<longrightarrow>
      construct_jagged_tensors_rw embeddings fb False ut = Inr (without_weights d) \<and>
      (\<forall>key jt. d key = Some jt \<longrightarrow>
         (\<exists>i < length (kjt_keys fb). kjt_keys fb ! i = key \<and>
            jt_weights jt = Some (split_with_sizes (kjt_values fb) (length_per_key fb) ! i))))
   \<and> (construct_jagged_tensors_rw embeddings fb False ut = Inr d \<longrightarrow>
        (\<forall>key jt. d key = Some jt \<longrightarrow> jt_weights jt = None))
   \<and> (construct_jagged_tensors_tw embeddings fs True = Inr d' \<longrightarrow>
        construct_jagged_tensors_tw embeddings fs False = Inr (without_weights d') \<and>
        (\<forall>key jt. d' key = Some jt \<longrightarrow>
           (\<exists>i < length embeddings. \<exists>k < length (kjt_keys (fs ! i)).
              kjt_keys (fs ! i) ! k = key \<and>
              jt_weights jt = Some (split_with_sizes (kjt_values (fs ! i))
                                      (length_per_key (fs ! i)) ! k))))
   \<and> (construct_jagged_tensors_tw embeddings fs False = Inr d' \<longrightarrow>
        (\<forall>key jt. d' key = Some jt \<longrightarrow> jt_weights jt = None))"
proof (intro conjI impI allI)
  assume "construct_jagged_tensors_rw embeddings fb True ut = Inr d"
  then show "construct_jagged_tensors_rw embeddings fb False ut = Inr (without_weights d)"
    by (rule construct_rw_modes)
next
  fix key jt
  assume "construct_jagged_tensors_rw embeddings fb True ut = Inr d" and "d key = Some jt"
  from construct_rw_entries [OF this]
  show "\<exists>i < length (kjt_keys fb). kjt_keys fb ! i = key \<and>
            jt_weights jt = Some (split_with_sizes (kjt_values fb) (length_per_key fb) ! i)"
    by simp
next
  fix key jt
  assume "construct_jagged_tensors_rw embeddings fb False ut = Inr d" and "d key = Some jt"
  from construct_rw_entries [OF this] show "jt_weights jt = None" by auto
next
  assume "construct_jagged_tensors_tw embeddings fs True = Inr d'"
  then show "construct_jagged_tensors_tw embeddings fs False = Inr (without_weights d')"
    by (rule construct_tw_modes)
next
  fix key jt
  assume "construct_jagged_tensors_tw embeddings fs True = Inr d'" and "d' key = Some jt"
  from construct_tw_entries [OF this]
  show "\<exists>i < length embeddings. \<exists>k < length (kjt_keys (fs ! i)).
              kjt_keys (fs ! i) ! k = key \<and>
              jt_weights jt = Some (split_with_sizes (kjt_values (fs ! i))
                                      (length_per_key (fs ! i)) ! k)"
    by (simp add: tw_entry_def)
next
  fix key jt
  assume "construct_jagged_tensors_tw embeddings fs False = Inr d'" and "d' key = Some jt"
  from construct_tw_entries [OF this] show "jt_weights jt = None"
    by (auto simp: tw_entry_def)
qed

theorem need_indices_modes_witness:
  "construct_jagged_tensors_rw [[10, 11], [12::nat]]
       \<lparr>kjt_keys = [''a'', ''b''], kjt_values = [5, 6, 7], kjt_lengths = [1, 1, 0, 1],
        kjt_stride = 2\<rparr> True [2, 0, 1]
     = Inr [''a'' \<mapsto> \<lparr>jt_values = [12, 10], jt_lengths = [1, 1], jt_weights = Some [5, 6]\<rparr>,
            ''b'' \<mapsto> \<lparr>jt_values = [11], jt_lengths = [0, 1], jt_weights = Some [7]\<rparr>]
   \<and> construct_jagged_tensors_rw [[10, 11], [12::nat]]
       \<lparr>kjt_keys = [''a'', ''b''], kjt_values = [5, 6, 7], kjt_lengths = [1, 1, 0, 1],
        kjt_stride = 2\<rparr> False [2, 0, 1]
     = Inr [''a'' \<mapsto> \<lparr>jt_values = [12, 10], jt_lengths = [1, 1], jt_weights = None\<rparr>,
            ''b'' \<mapsto> \<lparr>jt_values = [11], jt_lengths = [0, 1], jt_weights = None\<rparr>]
   \<and> construct_jagged_tensors_tw [[10, 11, 12::nat]]
       [\<lparr>kjt_keys = [''a'', ''b''], kjt_values = [5, 6, 7], kjt_lengths = [1, 1, 0, 1],
         kjt_stride = 2\<rparr>] True
     = Inr [''a'' \<mapsto> \<lparr>jt_values = [10, 11], jt_lengths = [1, 1], jt_weights = Some [5, 6]\<rparr>,
            ''b'' \<mapsto> \<lparr>jt_values = [12], jt_lengths = [0, 1], jt_weights = Some [7]\<rparr>]
   \<and> construct_jagged_tensors_tw [[10, 11, 12::nat]]
       [\<lparr>kjt_keys = [''a'', ''b''], kjt_values = [5, 6, 7], kjt_lengths = [1, 1, 0, 1],
         kjt_stride = 2\<rparr>] False
     = Inr [''a'' \<mapsto> \<lparr>jt_values = [10, 11], jt_lengths = [1, 1], jt_weights = None\<rparr>,
            ''b'' \<mapsto> \<lparr>jt_values = [12], jt_lengths = [0, 1], jt_weights = None\<rparr>]"
proof -
  let ?fb = "\<lparr>kjt_keys = [''a'', ''b''], kjt_values = [5, 6, 7], kjt_lengths = [1, 1, 0, 1],
        kjt_stride = 2\<rparr>"
  let ?rw = "[''a'' \<mapsto> \<lparr>jt_values = [12, 10::nat], jt_lengths = [1, 1], jt_weights = Some [5, 6]\<rparr>,
            ''b'' \<mapsto> \<lparr>jt_values = [11], jt_lengths = [0, 1], jt_weights = Some [7]\<rparr>]"
  let ?tw = "[''a'' \<mapsto> \<lparr>jt_values = [10, 11::nat], jt_lengths = [1, 1], jt_weights = Some [5, 6]\<rparr>,
            ''b'' \<mapsto> \<lparr>jt_values = [12], jt_lengths = [0, 1], jt_weights = Some [7]\<rparr>]"
  have rw: "construct_jagged_tensors_rw [[10, 11], [12::nat]] ?fb True [2, 0, 1] = Inr ?rw"
    by (simp add: construct_jagged_tensors_rw_def torch_concat_def index_select_def
        torch_split_def view_unbind_def length_per_key_def key_lengths_def rw_jagged_tensor_def
        nth_checked_def)
  have tw: "construct_jagged_tensors_tw [[10, 11, 12::nat]] [?fb] True = Inr ?tw"
    by (simp add: construct_jagged_tensors_tw_def tw_destination_def torch_split_def
        view_unbind_def length_per_key_def key_lengths_def tw_jagged_tensor_def nth_checked_def)
  from need_indices_modes [of "[[10, 11], [12::nat]]" ?fb "[2, 0, 1]" ?rw] rw
  have rw': "construct_jagged_tensors_rw [[10, 11], [12::nat]] ?fb False [2, 0, 1]
      = Inr (without_weights ?rw)"
    by blast
  from need_indices_modes [of "[[10, 11, 12::nat]]" _ _ _ "[?fb]" ?tw] tw
  have tw': "construct_jagged_tensors_tw [[10, 11, 12::nat]] [?fb] False
      = Inr (without_weights ?tw)"
    by blast
  from rw tw rw' tw' show ?thesis by simp
qed

section \<open>The constructor: claims C3 and C5\<close>

lemma create_infer_embedding_sharding_cases:
  "create_infer_embedding_sharding t infos =
     (if t = TABLE_WISE then Inr (InferTwSequenceEmbeddingSharding infos)
      else if t = ROW_WISE then Inr (InferRwSequenceEmbeddingSharding infos)
      else Inl ValueError)"
  by (simp add: create_infer_embedding_sharding_def)

lemma create_shardings_unsupported:
  "\<not> list_all supported (map fst a) \<Longrightarrow> create_shardings a = Inl ValueError"
proof (induction a)
  case Nil
  then show ?case by simp
next
  case (Cons x a)
  obtain t infos where x: "x = (t, infos)" by (cases x)
  show ?case
  proof (cases "supported t")
    case True
    with Cons.prems x have "\<not> list_all supported (map fst a)" by simp
    from Cons.IH [OF this] x True show ?thesis
      by (auto simp: create_infer_embedding_sharding_def supported_def)
  next
    case False
    with x show ?thesis
      by (simp add: create_infer_embedding_sharding_def supported_def)
  qed
qed

lemma create_shardings_supported:
  "list_all supported (map fst a) \<Longrightarrow>
   \<exists>shardings. create_shardings a = Inr shardings \<and> map fst shardings = map fst a"
proof (induction a)
  case Nil
  then show ?case by simp
next
  case (Cons x a)
  obtain t infos where x: "x = (t, infos)" by (cases x)
  from Cons.prems x have t: "supported t" and rest: "list_all supported (map fst a)" by simp_all
  from Cons.IH [OF rest] obtain shardings where
    "create_shardings a = Inr shardings" "map fst shardings = map fst a" by blast
  with t x show ?case
    by (auto simp: create_infer_embedding_sharding_def supported_def)
qed

text \<open>
  C3. Unsupported sharding type. \<^verbatim>\<open>create_infer_embedding_sharding\<close> raises \<^verbatim>\<open>ValueError\<close>
  exactly for the sharding types other than table-wise and row-wise, and the constructor
  fails with that \<^verbatim>\<open>ValueError\<close> whenever the assignment, grouped by sharding type, contains
  such a type. The constructor is a single evaluation: the error is its result, and
  nothing is tried again.
\<close>

theorem init_unsupported_sharding_type:
  "(create_infer_embedding_sharding sharding_type infos = Inl ValueError
      \<longleftrightarrow> sharding_type \<noteq> TABLE_WISE \<and> sharding_type \<noteq> ROW_WISE)
   \<and> ((\<exists>t \<in> set (map fst sharding_type_to_sharding_infos). t \<noteq> TABLE_WISE \<and> t \<noteq> ROW_WISE)
        \<longrightarrow> init module sharding_type_to_sharding_infos fused_params = Inl ValueError)"
proof (intro conjI impI)
  show "create_infer_embedding_sharding sharding_type infos = Inl ValueError
      \<longleftrightarrow> sharding_type \<noteq> TABLE_WISE \<and> sharding_type \<noteq> ROW_WISE"
    by (simp add: create_infer_embedding_sharding_def)
next
  assume "\<exists>t \<in> set (map fst sharding_type_to_sharding_infos). t \<noteq> TABLE_WISE \<and> t \<noteq> ROW_WISE"
  then have "\<not> list_all supported (map fst sharding_type_to_sharding_infos)"
    by (auto simp: list_all_iff supported_def)
  from create_shardings_unsupported [OF this]
  show "init module sharding_type_to_sharding_infos fused_params = Inl ValueError"
    by (simp add: init_def)
qed

theorem init_unsupported_sharding_type_witness:
  "COLUMN_WISE \<in> set (map fst [(TABLE_WISE, single_destination [''a'']),
                                 (COLUMN_WISE, single_destination [''b''])])
   \<and> init \<lparr>qec_embedding_configs = [''t0'', ''t1''], qec_embedding_dim = 1, qec_need_indices = False\<rparr>
       [(TABLE_WISE, single_destination [''a'']), (COLUMN_WISE, single_destination [''b''])]
       (Some \<lparr>fp_register_tbe = False, fp_quant_state_dict_split_scale_bias = True\<rparr>)
     = Inl ValueError"
proof -
  let ?a = "[(TABLE_WISE, single_destination [''a'']), (COLUMN_WISE, single_destination [''b''])]"
  have member: "COLUMN_WISE \<in> set (map fst ?a)" by simp
  have h: "\<exists>t \<in> set (map fst ?a). t \<noteq> TABLE_WISE \<and> t \<noteq> ROW_WISE"
    by simp
  from init_unsupported_sharding_type
    [of COLUMN_WISE "single_destination [''b'']" ?a
        "\<lparr>qec_embedding_configs = [''t0'', ''t1''], qec_embedding_dim = 1, qec_need_indices = False\<rparr>"
        "Some \<lparr>fp_register_tbe = False, fp_quant_state_dict_split_scale_bias = True\<rparr>"] h
  have "init \<lparr>qec_embedding_configs = [''t0'', ''t1''], qec_embedding_dim = 1, qec_need_indices = False\<rparr>
       ?a (Some \<lparr>fp_register_tbe = False, fp_quant_state_dict_split_scale_bias = True\<rparr>)
     = Inl ValueError"
    by (elim conjE impE)
  with member show ?thesis by (intro conjI)
qed

text \<open>
  C5, as amended. Without the fused-parameter flag for the split scale/bias state
  dictionary, construction fails unless every sharding type of the assignment is
  table-wise: with the assertion error when all the types are supported (table-wise or
  row-wise), and with the \<^verbatim>\<open>ValueError\<close> of \<^verbatim>\<open>create_infer_embedding_sharding\<close> when one of
  them is not, since the strategies are created before the assertion is reached. With the
  flag set, any mix of table-wise and row-wise sharding types is accepted.
\<close>

theorem init_split_scale_bias_check:
  "(\<not> is_fused_param_quant_state_dict_split_scale_bias fused_params
      \<and> \<not> list_all (\<lambda>t. t = TABLE_WISE) (map fst sharding_type_to_sharding_infos)
     \<longrightarrow> init module sharding_type_to_sharding_infos fused_params
          = Inl (if list_all supported (map fst sharding_type_to_sharding_infos)
                 then AssertionError else ValueError))
   \<and> (is_fused_param_quant_state_dict_split_scale_bias fused_params
      \<and> list_all supported (map fst sharding_type_to_sharding_infos)
     \<longrightarrow> (\<exists>self. init module sharding_type_to_sharding_infos fused_params = Inr self
           \<and> map fst (self_sharding_type_to_sharding self)
               = map fst sharding_type_to_sharding_infos))"
proof (intro conjI impI)
  assume a: "\<not> is_fused_param_quant_state_dict_split_scale_bias fused_params
      \<and> \<not> list_all (\<lambda>t. t = TABLE_WISE) (map fst sharding_type_to_sharding_infos)"
  show "init module sharding_type_to_sharding_infos fused_params
          = Inl (if list_all supported (map fst sharding_type_to_sharding_infos)
                 then AssertionError else ValueError)"
  proof (cases "list_all supported (map fst sharding_type_to_sharding_infos)")
    case True
    from create_shardings_supported [OF this] obtain shardings where
      "create_shardings sharding_type_to_sharding_infos = Inr shardings"
      "map fst shardings = map fst sharding_type_to_sharding_infos" by blast
    with a True show ?thesis by (simp add: init_def Let_def)
  next
    case False
    from create_shardings_unsupported [OF this] False show ?thesis by (simp add: init_def)
  qed
next
  assume a: "is_fused_param_quant_state_dict_split_scale_bias fused_params
      \<and> list_all supported (map fst sharding_type_to_sharding_infos)"
  then obtain shardings where
    "create_shardings sharding_type_to_sharding_infos = Inr shardings"
    "map fst shardings = map fst sharding_type_to_sharding_infos"
    using create_shardings_supported by blast
  with a show "\<exists>self. init module sharding_type_to_sharding_infos fused_params = Inr self
           \<and> map fst (self_sharding_type_to_sharding self)
               = map fst sharding_type_to_sharding_infos"
    by (simp add: init_def Let_def)
qed

text \<open>
  The claim as stated fails for a column-wise assignment without the flag: not every type
  is table-wise, and the constructor raises \<^verbatim>\<open>ValueError\<close>, not an assertion error.
\<close>

theorem init_split_scale_bias_check_counterexample:
  "\<not> is_fused_param_quant_state_dict_split_scale_bias None
   \<and> COLUMN_WISE \<noteq> TABLE_WISE
   \<and> init \<lparr>qec_embedding_configs = [''t0''], qec_embedding_dim = 1, qec_need_indices = False\<rparr>
       [(COLUMN_WISE, single_destination [''a''])] None
     = Inl ValueError
   \<and> init \<lparr>qec_embedding_configs = [''t0''], qec_embedding_dim = 1, qec_need_indices = False\<rparr>
       [(COLUMN_WISE, single_destination [''a''])] None
     \<noteq> Inl AssertionError"
  by (simp add: init_def is_fused_param_quant_state_dict_split_scale_bias_def
      create_infer_embedding_sharding_def)

theorem init_split_scale_bias_check_witness:
  "init \<lparr>qec_embedding_configs = [''t0'', ''t1''], qec_embedding_dim = 1, qec_need_indices = False\<rparr>
       [(TABLE_WISE, single_destination [''a'']), (ROW_WISE, single_destination [''b''])] None
     = Inl AssertionError
   \<and> init \<lparr>qec_embedding_configs = [''t0''], qec_embedding_dim = 1, qec_need_indices = False\<rparr>
       [(COLUMN_WISE, single_destination [''a''])] None
     = Inl ValueError
   \<and> (\<exists>self. init \<lparr>qec_embedding_configs = [''t0'', ''t1''], qec_embedding_dim = 1,
                   qec_need_indices = False\<rparr>
        [(TABLE_WISE, single_destination [''a'']), (ROW_WISE, single_destination [''b''])]
        (Some \<lparr>fp_register_tbe = False, fp_quant_state_dict_split_scale_bias = True\<rparr>) = Inr self)"
proof -
  let ?m = "\<lparr>qec_embedding_configs = [''t0'', ''t1''], qec_embedding_dim = 1, qec_need_indices = False\<rparr>"
  let ?m1 = "\<lparr>qec_embedding_configs = [''t0''], qec_embedding_dim = 1, qec_need_indices = False\<rparr>"
  let ?a = "[(TABLE_WISE, single_destination [''a'']), (ROW_WISE, single_destination [''b''])]"
  let ?c = "[(COLUMN_WISE, single_destination [''a''])]"
  let ?fp = "Some \<lparr>fp_register_tbe = False, fp_quant_state_dict_split_scale_bias = True\<rparr>"
  have off: "\<not> is_fused_param_quant_state_dict_split_scale_bias None"
    and on: "is_fused_param_quant_state_dict_split_scale_bias ?fp"
    by (simp_all add: is_fused_param_quant_state_dict_split_scale_bias_def)
  have mixed: "\<not> list_all (\<lambda>t. t = TABLE_WISE) (map fst ?a)" "list_all supported (map fst ?a)"
    by (simp_all add: supported_def)
  have col: "\<not> list_all (\<lambda>t. t = TABLE_WISE) (map fst ?c)" "\<not> list_all supported (map fst ?c)"
    by (simp_all add: supported_def)
  from init_split_scale_bias_check [of None ?a ?m] off mixed
  have 1: "init ?m ?a None = Inl AssertionError" by simp
  from init_split_scale_bias_check [of None ?c ?m1] off col
  have 2: "init ?m1 ?c None = Inl ValueError" by simp
  from init_split_scale_bias_check [of ?fp ?a ?m] on mixed
  have 3: "\<exists>self. init ?m ?a ?fp = Inr self" by blast
  from 1 2 3 show ?thesis by blast
qed

section \<open>Lazy creation of the distributors: claim C4\<close>

lemma create_input_dist_loop_eq:
  "create_input_dist_loop shardings (self, names) =
     (self\<lparr>self_input_dists := self_input_dists self @ map create_input_dist shardings,
           self_feature_splits :=
             self_feature_splits self @ map (\<lambda>s. length (feature_names s)) shardings\<rparr>,
      names @ concat (map feature_names shardings))"
  by (induction shardings arbitrary: self names) simp_all

lemma index_of_None_iff: "index_of xs x = None \<longleftrightarrow> x \<notin> set xs"
  by (induction xs) auto

lemma index_of_Some:
  "index_of xs x = Some i \<Longrightarrow> i < length xs \<and> xs ! i = x \<and> x \<notin> set (take i xs)"
proof (induction xs arbitrary: i)
  case Nil
  then show ?case by simp
next
  case (Cons y ys)
  show ?case
  proof (cases "y = x")
    case True
    with Cons.prems show ?thesis by simp
  next
    case False
    with Cons.prems obtain j where j: "index_of ys x = Some j" "i = Suc j" by auto
    from Cons.IH [OF j(1)] False j(2) show ?thesis by auto
  qed
qed

lemma index_of_nth_distinct:
  "distinct xs \<Longrightarrow> i < length xs \<Longrightarrow> index_of xs (xs ! i) = Some i"
proof (induction xs arbitrary: i)
  case Nil
  then show ?case by simp
next
  case (Cons y ys)
  show ?case
  proof (cases i)
    case 0
    then show ?thesis by simp
  next
    case (Suc j)
    with Cons.prems have "j < length ys" "ys ! j \<noteq> y" by auto
    with Cons.IH [of j] Cons.prems(1) Suc show ?thesis by simp
  qed
qed

lemma features_order_loop_found:
  "set fs \<subseteq> set names \<Longrightarrow>
   features_order_loop fs names order
     = (Inr (), order @ map (\<lambda>f. the (index_of names f)) fs)"
proof (induction fs arbitrary: order)
  case Nil
  then show ?case by simp
next
  case (Cons f fs)
  then obtain i where i: "index_of names f = Some i"
    using index_of_None_iff [of names f] by (cases "index_of names f") auto
  from Cons.prems have "set fs \<subseteq> set names" by simp
  from Cons.IH [OF this, of "order @ [i]"] i show ?case by simp
qed

lemma features_order_loop_Inr:
  "features_order_loop fs names order = (Inr u, order') \<Longrightarrow> set fs \<subseteq> set names"
proof (induction fs arbitrary: order)
  case Nil
  then show ?case by simp
next
  case (Cons f fs)
  then obtain i where i: "index_of names f = Some i"
    by (cases "index_of names f") auto
  with Cons.prems have "features_order_loop fs names (order @ [i]) = (Inr u, order')" by simp
  from Cons.IH [OF this] i index_of_None_iff [of names f] show ?case by auto
qed

lemma module_create_input_dist_Inr:
  assumes "module_create_input_dist self input_feature_names = (Inr u, self1)"
  shows "set (all_feature_names self) \<subseteq> set input_feature_names \<and>
     self1 = self\<lparr>self_input_dists := self_input_dists self
                      @ map create_input_dist (map snd (self_sharding_type_to_sharding self)),
                   self_feature_splits :=
                      map (\<lambda>s. length (feature_names s)) (map snd (self_sharding_type_to_sharding self)),
                   self_features_order := canonical_order
                      (map (\<lambda>f. the (index_of input_feature_names f)) (all_feature_names self)),
                   self_features_order_tensor := Some (canonical_order
                      (map (\<lambda>f. the (index_of input_feature_names f)) (all_feature_names self)))\<rparr>"
proof -
  obtain r order where loop:
    "features_order_loop (all_feature_names self) input_feature_names [] = (r, order)"
    by (cases "features_order_loop (all_feature_names self) input_feature_names []")
  with assms obtain v where r: "r = Inr v"
    by (cases r) (auto simp: module_create_input_dist_def create_input_dist_loop_eq
        all_feature_names_def)
  from features_order_loop_Inr loop r
  have sub: "set (all_feature_names self) \<subseteq> set input_feature_names" by blast
  from features_order_loop_found [OF sub, of "[]"] loop
  have "order = map (\<lambda>f. the (index_of input_feature_names f)) (all_feature_names self)" by simp
  with assms loop r sub show ?thesis
    by (auto simp: module_create_input_dist_def create_input_dist_loop_eq all_feature_names_def)
qed

lemma module_create_input_dist_found:
  assumes "set (all_feature_names self) \<subseteq> set input_feature_names"
  shows "\<exists>self1. module_create_input_dist self input_feature_names = (Inr (), self1)"
  using features_order_loop_found [OF assms, of "[]"]
  by (simp add: module_create_input_dist_def create_input_dist_loop_eq all_feature_names_def)



lemma input_dist_init_Inr:
  assumes "input_dist_init self features = (Inr u, self1)"
  shows "\<not> self_has_uninitialized_input_dist self1 \<and> \<not> self_has_uninitialized_output_dist self1
    \<and> (self_has_uninitialized_input_dist self \<longrightarrow>
         set (all_feature_names self) \<subseteq> set (kjt_keys features)
         \<and> self_input_dists self1 = self_input_dists self
              @ map create_input_dist (map snd (self_sharding_type_to_sharding self))
         \<and> self_feature_splits self1
              = map (\<lambda>s. length (feature_names s)) (map snd (self_sharding_type_to_sharding self))
         \<and> self_features_order self1 = canonical_order
              (map (\<lambda>f. the (index_of (kjt_keys features) f)) (all_feature_names self)))
    \<and> (\<not> self_has_uninitialized_input_dist self \<longrightarrow>
         self_input_dists self1 = self_input_dists self
         \<and> self_feature_splits self1 = self_feature_splits self
         \<and> self_features_order self1 = self_features_order self)
    \<and> (self_has_uninitialized_output_dist self \<longrightarrow>
         self_output_dists self1 = self_output_dists self
              @ map create_output_dist (map snd (self_sharding_type_to_sharding self)))
    \<and> (\<not> self_has_uninitialized_output_dist self \<longrightarrow>
         self_output_dists self1 = self_output_dists self)"
proof (cases "self_has_uninitialized_input_dist self")
  case True
  obtain r self' where c: "module_create_input_dist self (kjt_keys features) = (r, self')"
    by (cases "module_create_input_dist self (kjt_keys features)")
  with assms True obtain v where r: "r = Inr v"
    by (cases r) (auto simp: input_dist_init_def)
  from module_create_input_dist_Inr [of self "kjt_keys features" v self'] c r
  have sub: "set (all_feature_names self) \<subseteq> set (kjt_keys features)"
    and self': "self' = self\<lparr>self_input_dists := self_input_dists self
                      @ map create_input_dist (map snd (self_sharding_type_to_sharding self)),
                   self_feature_splits :=
                      map (\<lambda>s. length (feature_names s)) (map snd (self_sharding_type_to_sharding self)),
                   self_features_order := canonical_order
                      (map (\<lambda>f. the (index_of (kjt_keys features) f)) (all_feature_names self)),
                   self_features_order_tensor := Some (canonical_order
                      (map (\<lambda>f. the (index_of (kjt_keys features) f)) (all_feature_names self)))\<rparr>"
    by simp_all
  from assms True c r have "self1 =
      (if self_has_uninitialized_output_dist self'
       then (module_create_output_dist (self'\<lparr>self_has_uninitialized_input_dist := False\<rparr>))
              \<lparr>self_has_uninitialized_output_dist := False\<rparr>
       else self'\<lparr>self_has_uninitialized_input_dist := False\<rparr>)"
    by (auto simp: input_dist_init_def)
  with self' sub True show ?thesis
    by (auto simp: module_create_output_dist_def)
next
  case False
  with assms have "self1 =
      (if self_has_uninitialized_output_dist self
       then (module_create_output_dist self)\<lparr>self_has_uninitialized_output_dist := False\<rparr>
       else self)"
    by (auto simp: input_dist_init_def)
  with False show ?thesis
    by (auto simp: module_create_output_dist_def)
qed




section \<open>The identity permutation of a jagged keyed collection: claim C10\<close>

lemma concat_runs:
  "concat (map (\<lambda>k. take s (drop (k * s) xs)) [0..<n]) = take (n * s) xs"
proof (induction n)
  case 0
  then show ?case by simp
next
  case (Suc n)
  have "take (n * s) xs @ take s (drop (n * s) xs) = take (n * s + s) xs"
    by (simp add: take_add)
  with Suc show ?case by (simp add: add.commute)
qed

lemma concat_key_lengths:
  assumes "length (kjt_lengths f) = length (kjt_keys f) * kjt_stride f"
  shows "concat (map (key_lengths f) [0..<length (kjt_keys f)]) = kjt_lengths f"
proof -
  have "concat (map (key_lengths f) [0..<length (kjt_keys f)])
      = concat (map (\<lambda>k. take (kjt_stride f) (drop (k * kjt_stride f) (kjt_lengths f)))
          [0..<length (kjt_keys f)])"
    by (simp add: key_lengths_def [abs_def])
  also have "\<dots> = take (length (kjt_keys f) * kjt_stride f) (kjt_lengths f)"
    by (rule concat_runs)
  finally show ?thesis using assms by simp
qed

lemma concat_key_values:
  assumes "kjt_consistent f"
  shows "concat (map (key_values f) [0..<length (kjt_keys f)]) = kjt_values f"
proof -
  let ?segs = "split_with_sizes (kjt_values f) (length_per_key f)"
  have "map (key_values f) [0..<length (kjt_keys f)] = map (\<lambda>k. ?segs ! k) [0..<length ?segs]"
    by (simp add: key_values_def split_with_sizes_nth)
  also have "\<dots> = ?segs" by (rule map_nth)
  finally show ?thesis
    using assms by (simp add: kjt_consistent_def concat_split_with_sizes)
qed

lemma kjt_select_identity:
  assumes "length (kjt_lengths f) = length (kjt_keys f) * kjt_stride f" and "kjt_consistent f"
  shows "kjt_select f [0..<length (kjt_keys f)] = f"
  using concat_key_lengths [OF assms(1)] concat_key_values [OF assms(2)]
  by (simp add: kjt_select_def map_nth)

lemma kjt_permute_identity:
  assumes "length (kjt_lengths f) = length (kjt_keys f) * kjt_stride f"
  shows "kjt_permute f [0..<length (kjt_keys f)]
     = (if kjt_consistent f then Inr f else Inl InvariantViolation)"
  using kjt_select_identity [OF assms]
  by (simp add: kjt_permute_def list_all_iff)

lemma identity_order:
  assumes "distinct names"
  shows "map (\<lambda>f. the (index_of names f)) names = [0..<length names]"
proof (rule nth_equalityI)
  show "length (map (\<lambda>f. the (index_of names f)) names) = length [0..<length names]" by simp
next
  fix i assume "i < length (map (\<lambda>f. the (index_of names f)) names)"
  then have "i < length names" by simp
  with index_of_nth_distinct [OF assms this]
  show "map (\<lambda>f. the (index_of names f)) names ! i = [0..<length names] ! i" by simp
qed

lemma canonical_order_identity [simp]: "canonical_order [0..<n] = []"
  by (simp add: canonical_order_def)

lemma input_dist_init_found:
  assumes "self_has_uninitialized_input_dist self"
    and "set (all_feature_names self) \<subseteq> set (kjt_keys features)"
  shows "\<exists>self1. input_dist_init self features = (Inr (), self1)"
  using module_create_input_dist_found [OF assms(2)] assms(1)
  by (auto simp: input_dist_init_def)

text \<open>
  C10. Skipping the identity permutation. When the keys of the first batch are exactly the
  feature names of the strategies in their order (keys being unique, and the collection
  having one run of \<open>stride\<close> lengths per key), the computed feature order is the identity
  permutation, \<^verbatim>\<open>input_dist\<close> stores the empty feature order, and so skips
  \<^verbatim>\<open>features.permute\<close>. What the call returns and appends to the context is what the same
  distribution step yields on the module that stores the identity permutation as its
  feature order, where the features are permuted explicitly.
\<close>

theorem input_dist_skips_identity_permute:
  assumes uninit: "self_has_uninitialized_input_dist self"
    and names: "all_feature_names self = kjt_keys features"
    and dist: "distinct (kjt_keys features)"
    and runs: "length (kjt_lengths features) = length (kjt_keys features) * kjt_stride features"
  shows "\<exists>r self1 ctx1.
     input_dist self ctx (Some features) = (r, self1, ctx1)
     \<and> map (\<lambda>f. the (index_of (kjt_keys features) f)) (all_feature_names self)
         = [0..<length (kjt_keys features)]
     \<and> self_features_order self1 = []
     \<and> input_dist_distribute self1 ctx features = (r, ctx1)
     \<and> input_dist_distribute
         (self1\<lparr>self_features_order := [0..<length (kjt_keys features)]\<rparr>) ctx features
         = (r, ctx1)"
proof -
  from names have "set (all_feature_names self) \<subseteq> set (kjt_keys features)" by simp
  from input_dist_init_found [OF uninit this] obtain self1 where
    init: "input_dist_init self features = (Inr (), self1)" by blast
  have order: "map (\<lambda>f. the (index_of (kjt_keys features) f)) (all_feature_names self)
         = [0..<length (kjt_keys features)]"
    using identity_order [OF dist] names by simp
  from input_dist_init_Inr [OF init] uninit order
  have stored: "self_features_order self1 = []" by simp
  obtain r ctx1 where skip: "input_dist_distribute self1 ctx features = (r, ctx1)"
    by (cases "input_dist_distribute self1 ctx features")
  have call: "input_dist self ctx (Some features) = (r, self1, ctx1)"
    using init skip by (simp add: input_dist_def)
  have "input_dist_distribute
         (self1\<lparr>self_features_order := [0..<length (kjt_keys features)]\<rparr>) ctx features
         = input_dist_distribute self1 ctx features"
  proof (cases "kjt_consistent features")
    case True
    with stored kjt_permute_identity [OF runs] show ?thesis
      by (simp add: input_dist_distribute_def split: sum.splits)
  next
    case False
    with stored kjt_permute_identity [OF runs] show ?thesis
      by (simp add: input_dist_distribute_def kjt_split_def split: sum.splits)
  qed
  with call order stored skip show ?thesis by simp
qed

theorem input_dist_skips_identity_permute_witness:
  "\<exists>r self1 ctx1.
     input_dist (example_module [(ROW_WISE, single_destination [''a'', ''b''])]) create_context
       (Some example_batch) = (Inr r, self1, ctx1)
     \<and> self_features_order self1 = []
     \<and> input_dist_distribute (self1\<lparr>self_features_order := [0, 1]\<rparr>) create_context example_batch
         = (Inr r, ctx1)"
proof -
  let ?m = "example_module [(ROW_WISE, single_destination [''a'', ''b''])]"
  have uninit: "self_has_uninitialized_input_dist ?m" by code_simp
  have names: "all_feature_names ?m = kjt_keys example_batch" by code_simp
  have dist: "distinct (kjt_keys example_batch)" by code_simp
  have runs: "length (kjt_lengths example_batch)
      = length (kjt_keys example_batch) * kjt_stride example_batch" by code_simp
  have upt: "[0..<length (kjt_keys example_batch)] = [0, 1]" by code_simp
  have ok: "case input_dist ?m create_context (Some example_batch) of
          (Inr r, self1, ctx1) \<Rightarrow> True | (Inl e, self1, ctx1) \<Rightarrow> False"
    by code_simp
  from input_dist_skips_identity_permute [OF uninit names dist runs, of create_context]
  obtain r self1 ctx1 where
    call: "input_dist ?m create_context (Some example_batch) = (r, self1, ctx1)"
    and stored: "self_features_order self1 = []"
    and explicit: "input_dist_distribute
         (self1\<lparr>self_features_order := [0..<length (kjt_keys example_batch)]\<rparr>)
         create_context example_batch = (r, ctx1)"
    by blast
  from ok call obtain r' where "r = Inr r'" by (cases r) simp_all
  with call stored explicit upt show ?thesis by simp
qed

section \<open>The sharding contexts that \<^verbatim>\<open>input_dist\<close> appends: claim C7\<close>

lemma input_dist_loop_contexts:
  "input_dist_loop is dists fbs features (ret, ctx) = (Inr r, ctx') \<Longrightarrow>
   (\<forall>i \<in> set is. i < length dists \<and> i < length fbs)
   \<and> r = ret @ map (\<lambda>i. input_dist_forward (dists ! i) (fbs ! i)) is
   \<and> sharding_contexts ctx' = sharding_contexts ctx @
        map (\<lambda>i. \<lparr>sc_features = input_dist_forward (dists ! i) (fbs ! i),
                   sc_features_before_input_dist = features,
                   sc_unbucketize_permute_tensor =
                     unbucketize_permute_tensor_after (dists ! i) (fbs ! i)\<rparr>) is"
proof (induction "is" arbitrary: ret ctx)
  case Nil
  then show ?case by simp
next
  case (Cons i "is")
  from Cons.prems have i: "i < length dists" "i < length fbs"
    by (auto simp: nth_checked_def split: if_splits)
  with Cons.prems have rest: "input_dist_loop is dists fbs features
      (ret @ [input_dist_forward (dists ! i) (fbs ! i)],
       ctx\<lparr>sharding_contexts := sharding_contexts ctx @
         [\<lparr>sc_features = input_dist_forward (dists ! i) (fbs ! i),
           sc_features_before_input_dist = features,
           sc_unbucketize_permute_tensor =
             unbucketize_permute_tensor_after (dists ! i) (fbs ! i)\<rparr>]\<rparr>) = (Inr r, ctx')"
    by (simp add: nth_checked_def Let_def)
  from Cons.IH [OF rest] i show ?case by simp
qed

text \<open>
  What a returning call of \<^verbatim>\<open>input_dist\<close> appends, for any module: one sharding context per
  input distributor, each holding the whole collection \<open>features\<close> that was split.
\<close>

lemma input_dist_contexts:
  assumes "input_dist self ctx (Some features0) = (Inr r, self1, ctx1)"
  shows "\<exists>features fbs.
     (if self_features_order self1 \<noteq> []
      then kjt_permute features0 (self_features_order self1) else Inr features0) = Inr features
     \<and> kjt_split features (self_feature_splits self1) = Inr fbs
     \<and> r = map (\<lambda>i. input_dist_forward (self_input_dists self1 ! i) (fbs ! i))
           [0..<length (self_input_dists self1)]
     \<and> sharding_contexts ctx1 = sharding_contexts ctx @
          map (\<lambda>i. \<lparr>sc_features = input_dist_forward (self_input_dists self1 ! i) (fbs ! i),
                     sc_features_before_input_dist = features,
                     sc_unbucketize_permute_tensor =
                       unbucketize_permute_tensor_after (self_input_dists self1 ! i) (fbs ! i)\<rparr>)
            [0..<length (self_input_dists self1)]"
proof -
  from assms have dist: "input_dist_distribute self1 ctx features0 = (Inr r, ctx1)"
    by (auto simp: input_dist_def split: prod.splits sum.splits)
  then obtain features where
    perm: "(if self_features_order self1 \<noteq> []
      then kjt_permute features0 (self_features_order self1) else Inr features0) = Inr features"
    by (cases "if self_features_order self1 \<noteq> []
      then kjt_permute features0 (self_features_order self1) else Inr features0")
      (auto simp: input_dist_distribute_def)
  with dist obtain fbs where
    split: "kjt_split features (self_feature_splits self1) = Inr fbs"
    by (cases "kjt_split features (self_feature_splits self1)")
      (auto simp: input_dist_distribute_def)
  from dist perm split have "input_dist_loop [0..<length (self_input_dists self1)]
      (self_input_dists self1) fbs features ([], ctx) = (Inr r, ctx1)"
    by (simp add: input_dist_distribute_def)
  from input_dist_loop_contexts [OF this] perm split show ?thesis by simp
qed

lemma example_module_constructed:
  assumes "list_all supported (map fst assignment)"
  shows "init \<lparr>qec_embedding_configs = [''t0'', ''t1''], qec_embedding_dim = 1,
                qec_need_indices = True\<rparr>
           assignment
           (Some \<lparr>fp_register_tbe = False, fp_quant_state_dict_split_scale_bias = True\<rparr>)
         = Inr (example_module assignment)"
proof -
  from create_shardings_supported [OF assms] obtain shardings where
    "create_shardings assignment = Inr shardings" by blast
  then show ?thesis
    by (simp add: example_module_def init_def Let_def
        is_fused_param_quant_state_dict_split_scale_bias_def)
qed

text \<open>
  C7 at a mixed assignment: a table-wise strategy for feature \<open>a\<close> and a row-wise strategy
  for feature \<open>b\<close>. \<^verbatim>\<open>input_dist\<close> appends one sharding context per strategy, with the
  post-distribution features of that strategy and the unbucketize permutation for the
  row-wise strategy only, but both contexts hold the whole batch as
  \<^verbatim>\<open>features_before_input_dist\<close>, not the part of the strategy. The row-wise reconstruction
  then splits the embeddings of feature \<open>b\<close> by the lengths of both keys, and the forward
  pass raises.
\<close>

theorem input_dist_context_whole_features:
  "(case input_dist (example_module [(TABLE_WISE, single_destination [''a'']),
                                      (ROW_WISE, single_destination [''b''])])
           create_context (Some example_batch) of
      (r, self1, ctx) \<Rightarrow>
         r = Inr [[\<lparr>kjt_keys = [''a''], kjt_values = [5, 6], kjt_lengths = [1, 1],
                     kjt_stride = 2\<rparr>],
                  [\<lparr>kjt_keys = [''b''], kjt_values = [7], kjt_lengths = [0, 1],
                     kjt_stride = 2\<rparr>]]
         \<and> map sc_features (sharding_contexts ctx)
             = [[\<lparr>kjt_keys = [''a''], kjt_values = [5, 6], kjt_lengths = [1, 1],
                   kjt_stride = 2\<rparr>],
                [\<lparr>kjt_keys = [''b''], kjt_values = [7], kjt_lengths = [0, 1],
                   kjt_stride = 2\<rparr>]]
         \<and> map sc_unbucketize_permute_tensor (sharding_contexts ctx) = [None, Some [0]]
         \<and> map sc_features_before_input_dist (sharding_contexts ctx)
             = [example_batch, example_batch])
   \<and> (case fst (forward (example_module [(TABLE_WISE, single_destination [''a'']),
                                          (ROW_WISE, single_destination [''b''])])
                   (Some example_batch)) of
         Inl e \<Rightarrow> e = RuntimeError
       | Inr d \<Rightarrow> False)"
  by code_simp

section \<open>Lookup and output distribution: claim C6\<close>

lemma bind_result_eq_Inl:
  "bind_result r f = Inl e \<longleftrightarrow> r = Inl e \<or> (\<exists>x. r = Inr x \<and> f x = Inl e)"
  by (cases r) simp_all

lemma assign_keys_Inl:
  "assign_keys mk kvs ret = Inl e \<Longrightarrow> \<exists>i. mk i = Inl e"
proof (induction kvs arbitrary: ret)
  case Nil
  then show ?case by simp
next
  case (Cons a kvs)
  obtain i k where a: "a = (i, k)" by (cases a)
  show ?case
  proof (cases "mk i")
    case (Inl e')
    with Cons.prems a show ?thesis by auto
  next
    case (Inr v)
    with Cons.prems a have "assign_keys mk kvs (ret(k \<mapsto> v)) = Inl e" by simp
    from Cons.IH [OF this] show ?thesis .
  qed
qed

lemma nth_checked_Inl: "nth_checked xs i = Inl e \<Longrightarrow> e = IndexError"
  by (simp add: nth_checked_def split: if_splits)

lemma rw_jagged_tensor_Inl: "rw_jagged_tensor segs rows vl ni i = Inl e \<Longrightarrow> e = IndexError"
  by (auto simp: rw_jagged_tensor_def bind_result_eq_Inl dest: nth_checked_Inl split: if_splits)

lemma tw_jagged_tensor_Inl: "tw_jagged_tensor rows segs vl i = Inl e \<Longrightarrow> e = IndexError"
  by (auto simp: tw_jagged_tensor_def bind_result_eq_Inl dest: nth_checked_Inl
      split: option.splits)

lemma construct_rw_Inl:
  "construct_jagged_tensors_rw embeddings fb ni ut = Inl e \<Longrightarrow> e = RuntimeError \<or> e = IndexError"
  by (auto simp: construct_jagged_tensors_rw_def bind_result_eq_Inl torch_concat_def
      index_select_def torch_split_def view_unbind_def
      dest!: assign_keys_Inl rw_jagged_tensor_Inl split: if_splits)

lemma tw_destination_Inl:
  "tw_destination e0 f ni ret = Inl e \<Longrightarrow> e = RuntimeError \<or> e = IndexError"
  by (auto simp: tw_destination_def bind_result_eq_Inl torch_split_def view_unbind_def
      dest!: assign_keys_Inl tw_jagged_tensor_Inl split: if_splits)

lemma tw_loop_Inl:
  "tw_loop is embeddings features ni ret = Inl e \<Longrightarrow> e = RuntimeError \<or> e = IndexError"
proof (induction "is" arbitrary: ret)
  case Nil
  then show ?case by simp
next
  case (Cons i "is")
  then show ?case
    by (auto simp: bind_result_eq_Inl dest: nth_checked_Inl tw_destination_Inl)
qed

lemma construct_Inl:
  "construct_jagged_tensors embeddings features names fb ni ut perm = Inl e \<Longrightarrow>
   e = RuntimeError \<or> e = IndexError"
  by (auto simp: construct_jagged_tensors_def construct_jagged_tensors_tw_def
      dest: construct_rw_Inl tw_loop_Inl split: option.splits)

lemma py_index_Inl: "py_index xs i = Inl e \<Longrightarrow> e = IndexError"
  by (simp add: py_index_def split: if_splits)

lemma output_jt_dict_loop_Inl:
  "output_jt_dict_loop ni perm tensors rows jt_dict = Inl e \<Longrightarrow>
   e = RuntimeError \<or> e = IndexError"
proof (induction rows arbitrary: jt_dict)
  case Nil
  then show ?case by simp
next
  case (Cons row rows)
  obtain emb fs names idx fb where row: "row = (emb, fs, names, idx, fb)"
    by (cases row)
  from Cons.prems row Cons.IH show ?case
    by (auto simp: bind_result_eq_Inl dest: py_index_Inl construct_Inl split: if_splits)
qed

lemma output_dist_Inl:
  "output_dist self ctx output = Inl e \<Longrightarrow> e = RuntimeError \<or> e = IndexError"
  by (auto simp: output_dist_def output_jt_dict_def Let_def dest: output_jt_dict_loop_Inl)

lemma zip_take_fst: "length ys \<le> n \<Longrightarrow> zip (take n xs) ys = zip xs ys"
proof -
  assume n: "length ys \<le> n"
  then have "zip (take n xs) ys = zip (take n xs) (take n ys)" by simp
  also have "\<dots> = take n (zip xs ys)" by (simp add: take_zip)
  also have "\<dots> = zip xs ys" using n by simp
  finally show ?thesis .
qed

lemma zip_take_snd: "length xs \<le> n \<Longrightarrow> zip xs (take n ys) = zip xs ys"
proof -
  assume n: "length xs \<le> n"
  then have "zip xs (take n ys) = zip (take n xs) (take n ys)" by simp
  also have "\<dots> = take n (zip xs ys)" by (simp add: take_zip)
  also have "\<dots> = zip xs ys" using n by simp
  finally show ?thesis .
qed

lemma zip3_take:
  assumes "min (length xs) (length ys) \<le> m"
  shows "zip xs (zip ys (take m zs)) = zip xs (zip ys zs)"
proof -
  have "zip xs (zip ys (take m zs)) = take m (zip xs (zip ys (take m zs)))"
    using assms by simp
  also have "\<dots> = zip (take m xs) (zip (take m ys) (take m zs))"
    by (simp add: take_zip)
  also have "\<dots> = take m (zip xs (zip ys zs))"
    by (simp add: take_zip)
  also have "\<dots> = zip xs (zip ys zs)"
    using assms by simp
  finally show ?thesis .
qed

lemma compute_take:
  "compute (self\<lparr>self_lookups := take n (self_lookups self),
                  self_output_dists := ods\<rparr>) ctx (take n input)
   = take n (compute self ctx input)"
  by (simp add: compute_def take_map take_zip)

lemma output_dist_cong:
  assumes "zip (self_output_dists a) (zip out (sharding_contexts c))
      = zip (self_output_dists b) (zip out' (sharding_contexts c'))"
    and "self_embedding_names_per_rank_per_sharding a = self_embedding_names_per_rank_per_sharding b"
    and "self_need_indices a = self_need_indices b"
    and "self_features_to_permute_indices a = self_features_to_permute_indices b"
  shows "output_dist a c out = output_dist b c' out'"
  unfolding output_dist_def using assms by simp

lemma output_dist_no_contexts:
  "sharding_contexts ctx = [] \<Longrightarrow> output_dist self ctx output = Inr Map.empty"
  by (simp add: output_dist_def output_jt_dict_def)

text \<open>
  C6, as amended. Neither \<^verbatim>\<open>compute\<close> nor \<^verbatim>\<open>output_dist\<close> compares the number of sharding
  contexts with the number of strategies; they iterate over \<^verbatim>\<open>zip\<close>s, which stop at the
  shortest list. So \<^verbatim>\<open>compute_and_output_dist\<close> never raises an assertion error, a strategy
  (lookup, output distributor, distributed input) beyond the last sharding context is
  skipped, and a sharding context beyond the last strategy is ignored: the result is that
  of the overlapping prefix.
\<close>

theorem compute_and_output_dist_prefix:
  "compute_and_output_dist self ctx input \<noteq> Inl AssertionError
   \<and> compute_and_output_dist self ctx input
       = compute_and_output_dist
           (self\<lparr>self_lookups := take (length (sharding_contexts ctx)) (self_lookups self),
                  self_output_dists :=
                    take (length (sharding_contexts ctx)) (self_output_dists self)\<rparr>)
           ctx (take (length (sharding_contexts ctx)) input)
   \<and> compute_and_output_dist self ctx input
       = compute_and_output_dist self
           (ctx\<lparr>sharding_contexts :=
                  take (min (length (self_output_dists self))
                         (min (length (self_lookups self)) (length input)))
                    (sharding_contexts ctx)\<rparr>)
           input"
proof (intro conjI)
  show "compute_and_output_dist self ctx input \<noteq> Inl AssertionError"
    using output_dist_Inl [of self ctx "compute self ctx input" AssertionError]
    by (auto simp: compute_and_output_dist_def)
next
  let ?n = "length (sharding_contexts ctx)"
  let ?out = "compute self ctx input"
  let ?self = "self\<lparr>self_lookups := take ?n (self_lookups self),
                     self_output_dists := take ?n (self_output_dists self)\<rparr>"
  have out: "compute ?self ctx (take ?n input) = take ?n ?out"
    by (rule compute_take)
  have "zip (take ?n (self_output_dists self)) (zip (take ?n ?out) (sharding_contexts ctx))
      = zip (self_output_dists self) (zip ?out (sharding_contexts ctx))"
    by (simp add: zip_take_fst)
  then have "output_dist ?self ctx (take ?n ?out) = output_dist self ctx ?out"
    by (intro output_dist_cong) simp_all
  with out show "compute_and_output_dist self ctx input
       = compute_and_output_dist ?self ctx (take ?n input)"
    by (simp only: compute_and_output_dist_def)
next
  let ?m = "min (length (self_output_dists self))
              (min (length (self_lookups self)) (length input))"
  let ?out = "compute self ctx input"
  let ?ctx = "ctx\<lparr>sharding_contexts := take ?m (sharding_contexts ctx)\<rparr>"
  have out: "compute self ?ctx input = ?out"
    by (simp add: compute_def)
  have "length ?out = min (length (self_lookups self)) (length input)"
    by (simp add: compute_def)
  then have "min (length (self_output_dists self)) (length ?out) \<le> ?m"
    by simp
  then have "zip (self_output_dists self) (zip ?out (take ?m (sharding_contexts ctx)))
      = zip (self_output_dists self) (zip ?out (sharding_contexts ctx))"
    by (rule zip3_take)
  then have "output_dist self ?ctx ?out = output_dist self ctx ?out"
    by (intro output_dist_cong) simp_all
  with out show "compute_and_output_dist self ctx input
       = compute_and_output_dist self ?ctx input"
    by (simp only: compute_and_output_dist_def)
qed

text \<open>
  The claim as stated fails on the module in its steady state, which has one lookup and
  one output distributor, when it is given a fresh context, which has no sharding context:
  the call returns the empty dictionary.
\<close>

theorem compute_and_output_dist_prefix_counterexample:
  "length (self_lookups ready_module) = 1
   \<and> length (self_output_dists ready_module) = 1
   \<and> length (sharding_contexts create_context) = 0
   \<and> compute_and_output_dist ready_module create_context [[example_batch]] = Inr Map.empty"
proof -
  have "length (self_lookups ready_module) = 1" "length (self_output_dists ready_module) = 1"
    "length (sharding_contexts create_context) = 0"
    by code_simp+
  moreover have "compute_and_output_dist ready_module create_context [[example_batch]]
      = Inr Map.empty"
    by (simp add: compute_and_output_dist_def output_dist_no_contexts create_context_def)
  ultimately show ?thesis by simp
qed

theorem compute_and_output_dist_prefix_witness:
  "compute_and_output_dist ready_module create_context [[example_batch]] \<noteq> Inl AssertionError
   \<and> compute_and_output_dist ready_module create_context [[example_batch]]
       = compute_and_output_dist
           (ready_module\<lparr>self_lookups := take 0 (self_lookups ready_module),
                          self_output_dists := take 0 (self_output_dists ready_module)\<rparr>)
           create_context (take 0 [[example_batch]])"
proof -
  have none: "length (sharding_contexts create_context) = 0" by (simp add: create_context_def)
  from compute_and_output_dist_prefix [of ready_module create_context "[[example_batch]]"]
  have "compute_and_output_dist ready_module create_context [[example_batch]] \<noteq> Inl AssertionError"
    and "compute_and_output_dist ready_module create_context [[example_batch]]
       = compute_and_output_dist
           (ready_module\<lparr>self_lookups :=
                            take (length (sharding_contexts create_context)) (self_lookups ready_module),
                          self_output_dists :=
                            take (length (sharding_contexts create_context))
                              (self_output_dists ready_module)\<rparr>)
           create_context (take (length (sharding_contexts create_context)) [[example_batch]])"
    by blast+
  then show ?thesis unfolding none by (rule conjI)
qed

end
